theory Spec2Isabelle
  imports Main "HOL-Library.Word"
begin

section \<open>Standard-library functions used by ulogger.hpp\<close>

text \<open>
  Strings are byte lists. The members of the C++ classes end in an underscore, which
  is not a legal Isabelle name: the static members of \<open>ScopeLogger\<close> are written
  \<open>s_count\<close>, \<open>s_fout\<close>, \<open>s_initialized\<close>, \<open>s_crashedLastTime\<close>, \<open>s_crashChecked\<close>,
  the members of one object \<open>m_func\<close>, \<open>m_file\<close>, \<open>m_line\<close>, and the statics of the
  general logger \<open>Log_fout\<close>, \<open>Log_initialized\<close>.
\<close>

definition nl :: char where
  "nl = CHR 0x0A"

subsection \<open>Formatting an int: \<open>std::format("{}", n)\<close>\<close>

definition digit_char :: "nat \<Rightarrow> char" where
  "digit_char d = ''0123456789'' ! d"

function show_nat :: "nat \<Rightarrow> string" where
  "show_nat n = (if n < 10 then [digit_char n] else show_nat (n div 10) @ [digit_char (n mod 10)])"
  by pat_completeness auto
termination
  by (relation "measure id") auto

declare show_nat.simps [simp del]

definition to_string :: "int \<Rightarrow> string" where
  "to_string i = (if i < 0 then CHR ''-'' # show_nat (nat (- i)) else show_nat (nat i))"

subsection \<open>\<open>std::getline\<close>, \<open>std::string::rfind\<close>, \<open>std::stoi\<close>\<close>

text \<open>
  \<open>getline\<close> extracts characters up to the next newline, which it drops, or up to the end
  of the input. It fails (and the loop of \<open>lastLine\<close> ends) only when no character at
  all could be extracted.
\<close>

fun getline :: "string \<Rightarrow> (string \<times> string) option" where
  "getline [] = None"
| "getline (c # cs) =
     Some (takeWhile (\<lambda>x. x \<noteq> nl) (c # cs), drop 1 (dropWhile (\<lambda>x. x \<noteq> nl) (c # cs)))"

text \<open>\<open>s.rfind(c)\<close>: the index of the last occurrence of \<open>c\<close>, \<open>None\<close> for \<open>npos\<close>.\<close>

definition rfind :: "string \<Rightarrow> char \<Rightarrow> nat option" where
  "rfind s c =
     (if c \<in> set s then Some (length s - 1 - length (takeWhile (\<lambda>x. x \<noteq> c) (rev s)))
      else None)"

text \<open>\<open>s.substr(pos)\<close> for \<open>pos \<le> s.size()\<close>, the only way the source calls it.\<close>

definition substr :: "string \<Rightarrow> nat \<Rightarrow> string" where
  "substr s pos = drop pos s"

definition isspace :: "char \<Rightarrow> bool" where
  "isspace c = (c \<in> {CHR '' '', CHR 0x09, CHR 0x0A, CHR 0x0B, CHR 0x0C, CHR 0x0D})"

definition isdigit :: "char \<Rightarrow> bool" where
  "isdigit c = (c \<in> set ''0123456789'')"

definition digit_val :: "char \<Rightarrow> nat" where
  "digit_val c = of_char c - 48"

fun digits_val :: "nat \<Rightarrow> string \<Rightarrow> nat" where
  "digits_val acc [] = acc"
| "digits_val acc (c # cs) = digits_val (acc * 10 + digit_val c) cs"

datatype stoi_exception = invalid_argument | out_of_range

text \<open>
  \<open>std::stoi(str)\<close> in base 10: leading white space is skipped, one sign is accepted,
  the longest run of digits is converted and the rest of the string is ignored. No
  digit at all throws \<open>invalid_argument\<close>; a value that does not fit an \<open>int\<close> throws
  \<open>out_of_range\<close>.
\<close>

definition stoi :: "string \<Rightarrow> stoi_exception + int" where
  "stoi str =
     (let s1 = dropWhile isspace str;
          neg = (case s1 of [] \<Rightarrow> False | c # _ \<Rightarrow> c = CHR ''-'');
          s2 = (case s1 of [] \<Rightarrow> [] | c # r \<Rightarrow> if c = CHR ''-'' \<or> c = CHR ''+'' then r else s1);
          ds = takeWhile isdigit s2
      in if ds = [] then Inl invalid_argument
         else let v = (if neg then - int (digits_val 0 ds) else int (digits_val 0 ds))
              in if v < - 2147483648 \<or> 2147483647 < v then Inl out_of_range else Inr v)"

section \<open>The file system and output streams\<close>

text \<open>
  A file system holds files by path. Five predicates say what the operating system
  allows: reading the status of a path (\<open>fs::exists\<close> throws otherwise), reading
  the size of an entry (\<open>fs::file_size\<close> throws otherwise, as it does for an entry
  that is not a regular file), opening a path for appending, opening it for reading,
  and removing or renaming its directory entry. They do not change while the process
  runs. A write to a stream that is open succeeds. An operation that throws returns
  the error only: what it had changed by then is not followed further.
\<close>

type_synonym path = string

record filesys =
  files :: "path \<rightharpoonup> string"
  can_stat :: "path \<Rightarrow> bool"
  can_size :: "path \<Rightarrow> bool"
  can_append :: "path \<Rightarrow> bool"
  can_read :: "path \<Rightarrow> bool"
  can_unlink :: "path \<Rightarrow> bool"

datatype error = filesystem_error | no_live_scope

definition contents :: "filesys \<Rightarrow> path \<Rightarrow> string" where
  "contents w p = (case files w p of None \<Rightarrow> [] | Some c \<Rightarrow> c)"

text \<open>
  \<open>fs::exists\<close>, \<open>fs::file_size\<close>, \<open>fs::remove\<close> and \<open>fs::rename\<close> are called
  without an \<open>error_code\<close> argument: they throw \<open>filesystem_error\<close> when they fail.
\<close>

definition fs_exists :: "path \<Rightarrow> filesys \<Rightarrow> error + bool" where
  "fs_exists p w = (if can_stat w p then Inr (files w p \<noteq> None) else Inl filesystem_error)"

definition fs_file_size :: "path \<Rightarrow> filesys \<Rightarrow> error + nat" where
  "fs_file_size p w =
     (if files w p \<noteq> None \<and> can_size w p then Inr (length (contents w p))
      else Inl filesystem_error)"

definition fs_remove :: "path \<Rightarrow> filesys \<Rightarrow> error + filesys" where
  "fs_remove p w =
     (if files w p = None then Inr w
      else if can_unlink w p then Inr (w\<lparr>files := (files w)(p := None)\<rparr>)
      else Inl filesystem_error)"

definition fs_rename :: "path \<Rightarrow> path \<Rightarrow> filesys \<Rightarrow> error + filesys" where
  "fs_rename old new w =
     (if files w old \<noteq> None \<and> can_unlink w old
      then Inr (w\<lparr>files := (files w)(new := files w old, old := None)\<rparr>)
      else Inl filesystem_error)"

definition append_file :: "path \<Rightarrow> string \<Rightarrow> filesys \<Rightarrow> filesys" where
  "append_file p msg w = w\<lparr>files := (files w)(p \<mapsto> contents w p @ msg)\<rparr>"

text \<open>
  A \<open>std::ofstream\<close>: whether a file is attached, which one, and whether no error bit
  is set. A default-constructed stream is closed and good.
\<close>

record ofstream =
  is_open :: bool
  good :: bool
  target :: path

definition closed_stream :: ofstream where
  "closed_stream = \<lparr>is_open = False, good = True, target = []\<rparr>"

text \<open>
  \<open>f.open(p, std::ios::app)\<close>: on a stream that is already open the call fails and sets
  failbit; otherwise the file is created when absent, and success clears the error
  bits, failure sets failbit.
\<close>

definition ofstream_open :: "path \<Rightarrow> ofstream \<times> filesys \<Rightarrow> ofstream \<times> filesys" where
  "ofstream_open p fw =
     (case fw of (f, w) \<Rightarrow>
        if is_open f then (f\<lparr>good := False\<rparr>, w)
        else if can_append w p
        then (\<lparr>is_open = True, good = True, target = p\<rparr>,
              w\<lparr>files := (files w)(p \<mapsto> contents w p)\<rparr>)
        else (f\<lparr>good := False\<rparr>, w))"

text \<open>
  \<open>f << msg; f.flush();\<close> A stream with an error bit set writes nothing; a good stream
  with no file attached fails at the flush; an open good stream appends.
\<close>

definition ofstream_write :: "string \<Rightarrow> ofstream \<times> filesys \<Rightarrow> ofstream \<times> filesys" where
  "ofstream_write msg fw =
     (case fw of (f, w) \<Rightarrow>
        if \<not> good f then (f, w)
        else if \<not> is_open f then (f\<lparr>good := False\<rparr>, w)
        else (f, append_file (target f) msg w))"

section \<open>The general logger \<open>Log\<close>: opening and rotating output.log\<close>

text \<open>Of the general logger, the static stream, its flag and the two functions that open and rotate.\<close>

record log_state =
  Log_fout :: ofstream
  Log_initialized :: bool
  Log_fs :: filesys

definition Log_rotateIfTooLarge :: "path \<Rightarrow> nat \<Rightarrow> filesys \<Rightarrow> error + filesys" where
  "Log_rotateIfTooLarge fname maxSize w =
     (case fs_exists fname w of
        Inl e \<Rightarrow> Inl e
      | Inr ex \<Rightarrow>
          if \<not> ex then Inr w
          else (case fs_file_size fname w of
                  Inl e \<Rightarrow> Inl e
                | Inr sz \<Rightarrow>
                    if \<not> sz > maxSize then Inr w
                    else let backup = fname @ ''.old''
                         in (case fs_exists backup w of
                               Inl e \<Rightarrow> Inl e
                             | Inr exb \<Rightarrow>
                                 (case (if exb then fs_remove backup w else Inr w) of
                                    Inl e \<Rightarrow> Inl e
                                  | Inr w1 \<Rightarrow> fs_rename fname backup w1))))"

definition Log_ensureFileOpen :: "log_state \<Rightarrow> error + log_state" where
  "Log_ensureFileOpen s =
     (if \<not> Log_initialized s
      then (case Log_rotateIfTooLarge ''output.log'' (5 * 1024 * 1024) (Log_fs s) of
              Inl e \<Rightarrow> Inl e
            | Inr w \<Rightarrow>
                (case ofstream_open ''output.log'' (Log_fout s, w) of
                   (f, w1) \<Rightarrow> Inr \<lparr>Log_fout = f, Log_initialized = True, Log_fs = w1\<rparr>))
      else if \<not> is_open (Log_fout s)
      then (case ofstream_open ''output.log'' (Log_fout s, Log_fs s) of
              (f, w1) \<Rightarrow> Inr (s\<lparr>Log_fout := f, Log_fs := w1\<rparr>))
      else Inr s)"

section \<open>ScopeLogger\<close>

text \<open>
  The static members, together with the file system they act on. \<open>count_\<close> is a
  \<open>std::atomic<int>\<close>: 32 bits, and its increment and decrement wrap around. The
  operations are modelled on one thread, so the mutex plays no part. Every operation
  that can throw returns \<open>Inl\<close> of the error.
\<close>

record state =
  s_count :: "32 word"
  s_fout :: ofstream
  s_initialized :: bool
  s_crashedLastTime :: bool
  s_crashChecked :: bool
  fs :: filesys

text \<open>One \<open>ScopeLogger\<close> object.\<close>

record scope_logger =
  m_func :: string
  m_file :: string
  m_line :: "32 word"

definition fileName :: path where
  "fileName = ''diagnostics.log''"

definition crash_marker :: string where
  "crash_marker = ''## CRASH POINT ##'' @ [nl]"

definition rotateIfTooLarge :: "path \<Rightarrow> nat \<Rightarrow> filesys \<Rightarrow> error + filesys" where
  "rotateIfTooLarge fname maxSize w =
     (case fs_exists fname w of
        Inl e \<Rightarrow> Inl e
      | Inr ex \<Rightarrow>
          if \<not> ex then Inr w
          else (case fs_file_size fname w of
                  Inl e \<Rightarrow> Inl e
                | Inr sz \<Rightarrow>
                    if \<not> maxSize < sz then Inr w
                    else let backup = fname @ ''.old''
                         in (case fs_exists backup w of
                               Inl e \<Rightarrow> Inl e
                             | Inr exb \<Rightarrow>
                                 (case (if exb then fs_remove backup w else Inr w) of
                                    Inl e \<Rightarrow> Inl e
                                  | Inr w1 \<Rightarrow> fs_rename fname backup w1))))"

function lastLine_loop :: "string \<Rightarrow> string \<Rightarrow> string" where
  "lastLine_loop input lst =
     (case getline input of None \<Rightarrow> lst | Some (line, rest) \<Rightarrow> lastLine_loop rest line)"
  by pat_completeness auto
termination
proof (relation "measure (\<lambda>(input, lst). length input)")
  show "wf (measure (\<lambda>(input, lst). length input))"
    by simp
next
  fix input lst :: string and x2 x y
  assume "getline input = Some x2" and "(x, y) = x2"
  then obtain c cs where "input = c # cs"
    and "y = drop 1 (dropWhile (\<lambda>x. x \<noteq> nl) (c # cs))"
    by (cases input) auto
  moreover have "length (dropWhile (\<lambda>x. x \<noteq> nl) (c # cs)) \<le> length (c # cs)"
    by (rule length_dropWhile_le)
  ultimately show "((y, x), (input, lst)) \<in> measure (\<lambda>(input, lst). length input)"
    by simp
qed

declare lastLine_loop.simps [simp del]

definition lastLine :: "path \<Rightarrow> filesys \<Rightarrow> string" where
  "lastLine fname w =
     (if files w fname = None \<or> \<not> can_read w fname then []
      else lastLine_loop (contents w fname) [])"

definition detectPreviousCrash :: "state \<Rightarrow> error + bool \<times> state" where
  "detectPreviousCrash s =
     (if s_crashChecked s then Inr (s_crashedLastTime s, s)
      else let s1 = s\<lparr>s_crashChecked := True\<rparr>
           in (case fs_exists fileName (fs s1) of
                 Inl e \<Rightarrow> Inl e
               | Inr ex \<Rightarrow>
                   if \<not> ex then Inr (False, s1)
                   else let line = lastLine fileName (fs s1)
                        in (case rfind line (CHR ''|'') of
                              None \<Rightarrow> Inr (False, s1)
                            | Some pos \<Rightarrow>
                                let s2 = (case stoi (substr line (pos + 1)) of
                                            Inr n \<Rightarrow> s1\<lparr>s_crashedLastTime := (n > 0)\<rparr>
                                          | Inl _ \<Rightarrow> s1\<lparr>s_crashedLastTime := False\<rparr>)
                                in Inr (s_crashedLastTime s2, s2))))"

definition fout_open :: "path \<Rightarrow> state \<Rightarrow> state" where
  "fout_open p s =
     (case ofstream_open p (s_fout s, fs s) of (f, w) \<Rightarrow> s\<lparr>s_fout := f, fs := w\<rparr>)"

definition fout_write :: "string \<Rightarrow> state \<Rightarrow> state" where
  "fout_write msg s =
     (case ofstream_write msg (s_fout s, fs s) of (f, w) \<Rightarrow> s\<lparr>s_fout := f, fs := w\<rparr>)"

definition ensureFileOpen :: "state \<Rightarrow> error + state" where
  "ensureFileOpen s =
     (if \<not> s_initialized s
      then (case rotateIfTooLarge fileName (2 * 1024 * 1024) (fs s) of
              Inl e \<Rightarrow> Inl e
            | Inr w \<Rightarrow>
                let s1 = fout_open fileName (s\<lparr>fs := w\<rparr>);
                    s2 = s1\<lparr>s_initialized := True\<rparr>
                in (case detectPreviousCrash s2 of
                      Inl e \<Rightarrow> Inl e
                    | Inr (crashed, s3) \<Rightarrow>
                        Inr (if crashed then fout_write crash_marker s3 else s3)))
      else if \<not> is_open (s_fout s) then Inr (fout_open fileName s)
      else Inr s)"

definition init :: "state \<Rightarrow> error + state" where
  "init s = ensureFileOpen s"

text \<open>
  \<open>log(phase)\<close>; \<open>ts\<close> is what \<open>dateTime()\<close> returns at this call. The message is
  \<open>std::format("[{}] {}:{} {} |{}\n", dateTime(), func_, phase, file_, count_.load())\<close>.
\<close>

definition record_line :: "string \<Rightarrow> string \<Rightarrow> string \<Rightarrow> string \<Rightarrow> int \<Rightarrow> string" where
  "record_line ts func phase srcfile n =
     ''['' @ ts @ ''] '' @ func @ '':'' @ phase @ '' '' @ srcfile @ '' |'' @ to_string n @ [nl]"

definition log :: "scope_logger \<Rightarrow> string \<Rightarrow> string \<Rightarrow> state \<Rightarrow> error + state" where
  "log obj phase ts s =
     (case ensureFileOpen s of
        Inl e \<Rightarrow> Inl e
      | Inr s1 \<Rightarrow>
          let msg = record_line ts (m_func obj) phase (m_file obj) (sint (s_count s1))
          in Inr (if good (s_fout s1) then fout_write msg s1 else s1))"

text \<open>The two constructors, the destructor and \<open>here\<close>.\<close>

definition ctor :: "string \<Rightarrow> string \<Rightarrow> 32 word \<Rightarrow> string \<Rightarrow> state \<Rightarrow> error + scope_logger \<times> state" where
  "ctor func srcfile ln ts s =
     (let obj = \<lparr>m_func = func, m_file = srcfile, m_line = ln\<rparr>
      in case init s of
           Inl e \<Rightarrow> Inl e
         | Inr s1 \<Rightarrow>
             (case log obj ''start...'' ts s1 of
                Inl e \<Rightarrow> Inl e
              | Inr s2 \<Rightarrow> Inr (obj, s2\<lparr>s_count := s_count s2 + 1\<rparr>)))"

definition ctor1 :: "string \<Rightarrow> string \<Rightarrow> string \<Rightarrow> 32 word \<Rightarrow> string \<Rightarrow> state \<Rightarrow> error + scope_logger \<times> state" where
  "ctor1 func name srcfile ln ts s =
     (let obj = \<lparr>m_func = func @ '':'' @ name, m_file = srcfile, m_line = ln\<rparr>
      in case init s of
           Inl e \<Rightarrow> Inl e
         | Inr s1 \<Rightarrow>
             (case log obj ''start...'' ts s1 of
                Inl e \<Rightarrow> Inl e
              | Inr s2 \<Rightarrow> Inr (obj, s2\<lparr>s_count := s_count s2 + 1\<rparr>)))"

definition dtor :: "scope_logger \<Rightarrow> string \<Rightarrow> state \<Rightarrow> error + state" where
  "dtor obj ts s = log obj ''end!'' ts (s\<lparr>s_count := s_count s - 1\<rparr>)"

definition here :: "scope_logger \<Rightarrow> string \<Rightarrow> string \<Rightarrow> state \<Rightarrow> error + state" where
  "here obj msg ts s = log obj msg ts s"

text \<open>The state of a process that has not used the logger yet, on file system \<open>w\<close>.\<close>

definition initial :: "filesys \<Rightarrow> state" where
  "initial w =
     \<lparr>s_count = 0, s_fout = closed_stream, s_initialized = False,
      s_crashedLastTime = False, s_crashChecked = False, fs = w\<rparr>"

section \<open>Client programs on one thread\<close>

text \<open>
  A client uses the logger through the macros \<open>LOG_START\<close>, \<open>LOG_START1\<close> and
  \<open>LOG_HERE\<close>; a scope ends when its block is left. On one thread the live objects form
  a stack: \<open>Here\<close> and \<open>End\<close> act on the innermost live scope. Each event carries the
  time stamp that \<open>dateTime()\<close> returns when the event writes its record. An event that
  needs a live scope where there is none is not a program (\<open>no_live_scope\<close>).
\<close>

datatype op =
    Start string string "32 word"
  | Start1 string string string "32 word"
  | Here string
  | End

type_synonym event = "string \<times> op"

type_synonym config = "state \<times> scope_logger list"

fun exec :: "event \<Rightarrow> config \<Rightarrow> error + config" where
  "exec (ts, Start func srcfile ln) (s, stk) =
     (case ctor func srcfile ln ts s of
        Inl e \<Rightarrow> Inl e
      | Inr (obj, s1) \<Rightarrow> Inr (s1, obj # stk))"
| "exec (ts, Start1 func name srcfile ln) (s, stk) =
     (case ctor1 func name srcfile ln ts s of
        Inl e \<Rightarrow> Inl e
      | Inr (obj, s1) \<Rightarrow> Inr (s1, obj # stk))"
| "exec (ts, Here msg) (s, obj # stk) =
     (case here obj msg ts s of Inl e \<Rightarrow> Inl e | Inr s1 \<Rightarrow> Inr (s1, obj # stk))"
| "exec (ts, End) (s, obj # stk) =
     (case dtor obj ts s of Inl e \<Rightarrow> Inl e | Inr s1 \<Rightarrow> Inr (s1, stk))"
| "exec (ts, Here msg) (s, []) = Inl no_live_scope"
| "exec (ts, End) (s, []) = Inl no_live_scope"

fun run :: "event list \<Rightarrow> config \<Rightarrow> error + config" where
  "run [] c = Inr c"
| "run (ev # evs) c = (case exec ev c of Inl e \<Rightarrow> Inl e | Inr c1 \<Rightarrow> run evs c1)"

section \<open>Auxiliary notions for stating the properties\<close>

text \<open>A file system that refuses nothing.\<close>

definition permissive :: "(path \<rightharpoonup> string) \<Rightarrow> filesys" where
  "permissive fm =
     \<lparr>files = fm, can_stat = (\<lambda>_. True), can_size = (\<lambda>_. True), can_append = (\<lambda>_. True),
      can_read = (\<lambda>_. True), can_unlink = (\<lambda>_. True)\<rparr>"

text \<open>
  The state a first open leaves in a process that starts with no diagnostics file on a
  permissive file system.
\<close>

definition fresh_open :: state where
  "fresh_open =
     \<lparr>s_count = 0, s_fout = \<lparr>is_open = True, good = True, target = fileName\<rparr>,
      s_initialized = True, s_crashedLastTime = False, s_crashChecked = True,
      fs = permissive [fileName \<mapsto> []]\<rparr>"

text \<open>
  What a program is expected to do, in the words of the specification. \<open>well_nested d\<close>:
  with \<open>d\<close> scopes live, every \<open>Here\<close> and \<open>End\<close> finds a live scope. \<open>nested B d\<close>:
  the same, and never more than \<open>B\<close> scopes are live. \<open>end_stack\<close> and \<open>end_count\<close>:
  the live scopes and the counter after the program. \<open>loaded\<close>: the counter values
  the records carry, a Start the value before its increment, an End the value after
  its decrement. \<open>depths\<close>: the same by nesting depth. \<open>lines\<close>: the text of the
  records, given their count fields.
\<close>

fun well_nested :: "nat \<Rightarrow> event list \<Rightarrow> bool" where
  "well_nested d [] = True"
| "well_nested d ((ts, Start func srcfile ln) # evs) = well_nested (Suc d) evs"
| "well_nested d ((ts, Start1 func name srcfile ln) # evs) = well_nested (Suc d) evs"
| "well_nested d ((ts, Here msg) # evs) = (0 < d \<and> well_nested d evs)"
| "well_nested d ((ts, End) # evs) = (0 < d \<and> well_nested (d - 1) evs)"

fun nested :: "nat \<Rightarrow> nat \<Rightarrow> event list \<Rightarrow> bool" where
  "nested B d [] = True"
| "nested B d ((ts, Start func srcfile ln) # evs) = (d < B \<and> nested B (Suc d) evs)"
| "nested B d ((ts, Start1 func name srcfile ln) # evs) = (d < B \<and> nested B (Suc d) evs)"
| "nested B d ((ts, Here msg) # evs) = (0 < d \<and> nested B d evs)"
| "nested B d ((ts, End) # evs) = (0 < d \<and> nested B (d - 1) evs)"

fun end_stack :: "scope_logger list \<Rightarrow> event list \<Rightarrow> scope_logger list" where
  "end_stack stk [] = stk"
| "end_stack stk ((ts, Start func srcfile ln) # evs) =
     end_stack (\<lparr>m_func = func, m_file = srcfile, m_line = ln\<rparr> # stk) evs"
| "end_stack stk ((ts, Start1 func name srcfile ln) # evs) =
     end_stack (\<lparr>m_func = func @ '':'' @ name, m_file = srcfile, m_line = ln\<rparr> # stk) evs"
| "end_stack stk ((ts, Here msg) # evs) = end_stack stk evs"
| "end_stack stk ((ts, End) # evs) = end_stack (tl stk) evs"

fun end_count :: "32 word \<Rightarrow> event list \<Rightarrow> 32 word" where
  "end_count c [] = c"
| "end_count c ((ts, Start func srcfile ln) # evs) = end_count (c + 1) evs"
| "end_count c ((ts, Start1 func name srcfile ln) # evs) = end_count (c + 1) evs"
| "end_count c ((ts, Here msg) # evs) = end_count c evs"
| "end_count c ((ts, End) # evs) = end_count (c - 1) evs"

fun loaded :: "32 word \<Rightarrow> event list \<Rightarrow> int list" where
  "loaded c [] = []"
| "loaded c ((ts, Start func srcfile ln) # evs) = sint c # loaded (c + 1) evs"
| "loaded c ((ts, Start1 func name srcfile ln) # evs) = sint c # loaded (c + 1) evs"
| "loaded c ((ts, Here msg) # evs) = sint c # loaded c evs"
| "loaded c ((ts, End) # evs) = sint (c - 1) # loaded (c - 1) evs"

fun depths :: "nat \<Rightarrow> event list \<Rightarrow> nat list" where
  "depths d [] = []"
| "depths d ((ts, Start func srcfile ln) # evs) = d # depths (Suc d) evs"
| "depths d ((ts, Start1 func name srcfile ln) # evs) = d # depths (Suc d) evs"
| "depths d ((ts, Here msg) # evs) = d # depths d evs"
| "depths d ((ts, End) # evs) = (d - 1) # depths (d - 1) evs"

fun lines :: "scope_logger list \<Rightarrow> event list \<Rightarrow> int list \<Rightarrow> string" where
  "lines stk ((ts, Start func srcfile ln) # evs) (n # ns) =
     record_line ts func ''start...'' srcfile n
     @ lines (\<lparr>m_func = func, m_file = srcfile, m_line = ln\<rparr> # stk) evs ns"
| "lines stk ((ts, Start1 func name srcfile ln) # evs) (n # ns) =
     record_line ts (func @ '':'' @ name) ''start...'' srcfile n
     @ lines (\<lparr>m_func = func @ '':'' @ name, m_file = srcfile, m_line = ln\<rparr> # stk) evs ns"
| "lines (obj # stk) ((ts, Here msg) # evs) (n # ns) =
     record_line ts (m_func obj) msg (m_file obj) n @ lines (obj # stk) evs ns"
| "lines (obj # stk) ((ts, End) # evs) (n # ns) =
     record_line ts (m_func obj) ''end!'' (m_file obj) n @ lines stk evs ns"
| "lines stk evs ns = []"

text \<open>The text \<open>txt\<close> appended to the file of the stream, when the stream is good.\<close>

definition appended :: "string \<Rightarrow> state \<Rightarrow> state" where
  "appended txt s =
     (if good (s_fout s) \<and> txt \<noteq> []
      then s\<lparr>fs := append_file (target (s_fout s)) txt (fs s)\<rparr>
      else s)"

text \<open>
  What a process that runs the program \<open>evs\<close> on the file system \<open>w\<close> leaves in the
  diagnostics file; \<open>None\<close> when an operation raised.
\<close>

definition final_contents :: "event list \<Rightarrow> filesys \<Rightarrow> string option" where
  "final_contents evs w =
     (case run evs (initial w, []) of
        Inl e \<Rightarrow> None
      | Inr c \<Rightarrow> Some (contents (fs (fst c)) fileName))"

text \<open>The scenario of the specification: one scope with one annotation.\<close>

definition scenario_foo :: "event list" where
  "scenario_foo =
     [(''2025-01-01 10:00:00'', Start ''foo'' ''file.cpp'' 10),
      (''2025-01-01 10:00:01'', Here ''halfway''),
      (''2025-01-01 10:00:02'', End)]"

text \<open>
  The crash check in the words of the specification: the count field of a line is the
  text after its last \<open>|\<close>; the line tells of a crash when it has a count field that
  parses as an integer greater than 0.
\<close>

definition count_field :: "string \<Rightarrow> string option" where
  "count_field line =
     (if CHR ''|'' \<in> set line then Some (rev (takeWhile (\<lambda>x. x \<noteq> CHR ''|'') (rev line)))
      else None)"

definition crash_verdict :: "string \<Rightarrow> bool" where
  "crash_verdict line =
     (case count_field line of
        None \<Rightarrow> False
      | Some txt \<Rightarrow> (case stoi txt of Inl e \<Rightarrow> False | Inr n \<Rightarrow> 0 < n))"

text \<open>
  The state after the first open of a process, on the file system \<open>w1\<close> that the
  rotation step left: the file is opened for appending if the system allows it, the
  verdict on the last line of the file at the diagnostics path is recorded, and the
  crash marker is appended when the verdict is a crash.
\<close>

definition first_state :: "filesys \<Rightarrow> state" where
  "first_state w1 =
     (if can_append w1 fileName
      then \<lparr>s_count = 0, s_fout = \<lparr>is_open = True, good = True, target = fileName\<rparr>,
            s_initialized = True,
            s_crashedLastTime = crash_verdict (lastLine fileName w1),
            s_crashChecked = True,
            fs = w1\<lparr>files := (files w1)(fileName \<mapsto> contents w1 fileName
                   @ (if crash_verdict (lastLine fileName w1) then crash_marker else []))\<rparr>\<rparr>
      else \<lparr>s_count = 0, s_fout = \<lparr>is_open = False, good = False, target = []\<rparr>,
            s_initialized = True,
            s_crashedLastTime = crash_verdict (lastLine fileName w1),
            s_crashChecked = True,
            fs = w1\<rparr>)"

text \<open>The first use of the general logger, on file system \<open>w\<close>.\<close>

definition Log_initial :: "filesys \<Rightarrow> log_state" where
  "Log_initial w = \<lparr>Log_fout = closed_stream, Log_initialized = False, Log_fs = w\<rparr>"

text \<open>
  Example files: what a run that stopped inside a scope left behind; the same after
  25000 earlier scopes that were closed, which is more than 2 MiB; and a file that
  ends in a blank line.
\<close>

definition previous_log :: string where
  "previous_log =
     ''[2025-01-01 09:00:00] main:start... main.cpp |0'' @ [nl]
     @ ''[2025-01-01 09:00:01] main:working main.cpp |1'' @ [nl]"

definition closed_scope :: string where
  "closed_scope =
     ''[2025-01-01 08:00:00] main:start... main.cpp |0'' @ [nl]
     @ ''[2025-01-01 08:00:01] main:end! main.cpp |0'' @ [nl]"

definition big_log :: string where
  "big_log = concat (replicate 25000 closed_scope) @ previous_log"

definition crashed_fs :: filesys where
  "crashed_fs = permissive [fileName \<mapsto> previous_log]"

definition big_fs :: filesys where
  "big_fs = permissive [fileName \<mapsto> big_log, ''diagnostics.log.old'' \<mapsto> ''older'']"

definition rotated_state :: state where
  "rotated_state =
     \<lparr>s_count = 0, s_fout = \<lparr>is_open = True, good = True, target = fileName\<rparr>,
      s_initialized = True, s_crashedLastTime = False, s_crashChecked = True,
      fs = permissive [''diagnostics.log.old'' \<mapsto> big_log, fileName \<mapsto> []]\<rparr>"

definition blank_end_fs :: filesys where
  "blank_end_fs = permissive [fileName \<mapsto> ''main:working main.cpp |1'' @ [nl, nl]]"

definition both_big_fs :: filesys where
  "both_big_fs =
     permissive [fileName \<mapsto> big_log, ''diagnostics.log.old'' \<mapsto> ''older'',
                 ''output.log'' \<mapsto> replicate 5242881 (CHR ''y'')]"

text \<open>A file whose last line is the crash marker.\<close>

definition marked_fs :: filesys where
  "marked_fs = permissive [fileName \<mapsto> previous_log @ crash_marker]"

text \<open>
  \<open>n\<close> nested scopes opened one inside the other, and the value of the counter, read
  as the \<open>int\<close> it is, after a program.
\<close>

definition starts :: "nat \<Rightarrow> event list" where
  "starts n = replicate n (''2025-01-01 10:00:00'', Start ''f'' ''a.cpp'' 1)"

definition count_after :: "event list \<Rightarrow> filesys \<Rightarrow> int option" where
  "count_after evs w =
     (case run evs (initial w, []) of
        Inl e \<Rightarrow> None
      | Inr c \<Rightarrow> Some (sint (s_count (fst c))))"

text \<open>
  The file system \<open>big_fs\<close> when the operating system refuses to remove or rename any
  directory entry (a directory without write permission, or files held open by
  another program).
\<close>

definition locked_fs :: filesys where
  "locked_fs = big_fs\<lparr>can_unlink := (\<lambda>_. False)\<rparr>"


section \<open>Properties of the primitive operations\<close>

subsection \<open>Frame lemmas\<close>

lemma rotateIfTooLarge_perms:
  assumes "rotateIfTooLarge p m w = Inr w1"
  shows "can_append w1 = can_append w" and "can_read w1 = can_read w"
    and "can_unlink w1 = can_unlink w" and "can_stat w1 = can_stat w"
    and "can_size w1 = can_size w" and "can_stat w p"
  using assms
  by (auto simp: rotateIfTooLarge_def fs_exists_def fs_file_size_def fs_remove_def
      fs_rename_def Let_def split: if_splits sum.splits)

lemma fout_open_frame [simp]:
  "s_count (fout_open p s) = s_count s"
  "s_initialized (fout_open p s) = s_initialized s"
  "s_crashedLastTime (fout_open p s) = s_crashedLastTime s"
  "s_crashChecked (fout_open p s) = s_crashChecked s"
  "can_append (fs (fout_open p s)) = can_append (fs s)"
  "can_read (fs (fout_open p s)) = can_read (fs s)"
  "can_unlink (fs (fout_open p s)) = can_unlink (fs s)"
  "can_stat (fs (fout_open p s)) = can_stat (fs s)"
  "can_size (fs (fout_open p s)) = can_size (fs s)"
  by (simp_all add: fout_open_def ofstream_open_def)

lemma fout_write_frame [simp]:
  "s_count (fout_write m s) = s_count s"
  "s_initialized (fout_write m s) = s_initialized s"
  "s_crashedLastTime (fout_write m s) = s_crashedLastTime s"
  "s_crashChecked (fout_write m s) = s_crashChecked s"
  "is_open (s_fout (fout_write m s)) = is_open (s_fout s)"
  "target (s_fout (fout_write m s)) = target (s_fout s)"
  "can_append (fs (fout_write m s)) = can_append (fs s)"
  "can_read (fs (fout_write m s)) = can_read (fs s)"
  "can_unlink (fs (fout_write m s)) = can_unlink (fs s)"
  by (simp_all add: fout_write_def ofstream_write_def append_file_def)

lemma fout_open_good_open:
  "good (s_fout (fout_open p s)) \<Longrightarrow> is_open (s_fout (fout_open p s))"
  by (simp add: fout_open_def ofstream_open_def split: if_splits)

lemma fout_open_again:
  "\<not> is_open (s_fout (fout_open p s)) \<Longrightarrow> fout_open p (fout_open p s) = fout_open p s"
  by (simp add: fout_open_def ofstream_open_def split: if_splits)

lemma fout_write_good:
  "good (s_fout (fout_write m s)) \<Longrightarrow> good (s_fout s)"
  by (simp add: fout_write_def ofstream_write_def split: if_splits)

lemma fout_write_closed:
  "\<not> good (s_fout s) \<Longrightarrow> fout_write m s = s"
  by (simp add: fout_write_def ofstream_write_def)

lemma fout_write_ok:
  "good (s_fout s) \<Longrightarrow> is_open (s_fout s) \<Longrightarrow>
   fout_write m s = s\<lparr>fs := append_file (target (s_fout s)) m (fs s)\<rparr>"
  by (simp add: fout_write_def ofstream_write_def)

lemma detectPreviousCrash_frame:
  assumes "detectPreviousCrash s = Inr (b, s')"
  shows "s_count s' = s_count s" and "s_fout s' = s_fout s" and "fs s' = fs s"
    and "s_initialized s' = s_initialized s" and "s_crashChecked s'"
    and "b = s_crashedLastTime s' \<or> (\<not> b \<and> \<not> s_crashChecked s)"
  using assms
  by (auto simp: detectPreviousCrash_def Let_def split: if_splits option.splits sum.splits)

subsection \<open>The three branches of ensureFileOpen\<close>

lemma ensureFileOpen_open: "s_initialized s \<Longrightarrow> is_open (s_fout s) \<Longrightarrow> ensureFileOpen s = Inr s"
  by (simp add: ensureFileOpen_def)

lemma ensureFileOpen_reopen:
  "s_initialized s \<Longrightarrow> \<not> is_open (s_fout s) \<Longrightarrow> ensureFileOpen s = Inr (fout_open fileName s)"
  by (simp add: ensureFileOpen_def)

lemma ensureFileOpen_first:
  "\<not> s_initialized s \<Longrightarrow>
   ensureFileOpen s =
     (case rotateIfTooLarge fileName 2097152 (fs s) of
        Inl e \<Rightarrow> Inl e
      | Inr w \<Rightarrow>
          (case detectPreviousCrash ((fout_open fileName (s\<lparr>fs := w\<rparr>))\<lparr>s_initialized := True\<rparr>) of
             Inl e \<Rightarrow> Inl e
           | Inr (crashed, s3) \<Rightarrow> Inr (if crashed then fout_write crash_marker s3 else s3)))"
  by (simp add: ensureFileOpen_def Let_def split: sum.splits)

lemma ensureFileOpen_cases:
  assumes "ensureFileOpen s = Inr s1"
  obtains (opened) "s_initialized s" "is_open (s_fout s)" "s1 = s"
  | (reopen) "s_initialized s" "\<not> is_open (s_fout s)" "s1 = fout_open fileName s"
  | (first) w b s3 where "\<not> s_initialized s"
      "rotateIfTooLarge fileName 2097152 (fs s) = Inr w"
      "detectPreviousCrash ((fout_open fileName (s\<lparr>fs := w\<rparr>))\<lparr>s_initialized := True\<rparr>) =
         Inr (b, s3)"
      "s1 = (if b then fout_write crash_marker s3 else s3)"
proof (cases "s_initialized s")
  case True
  show ?thesis
  proof (cases "is_open (s_fout s)")
    case o: True
    have "s1 = s"
      using assms ensureFileOpen_open [OF True o] by simp
    with True o show ?thesis by (rule opened)
  next
    case o: False
    have "s1 = fout_open fileName s"
      using assms ensureFileOpen_reopen [OF True o] by simp
    with True o show ?thesis by (rule reopen)
  qed
next
  case False
  from assms obtain w where w: "rotateIfTooLarge fileName 2097152 (fs s) = Inr w"
    unfolding ensureFileOpen_first [OF False] by (simp split: sum.splits)
  from assms obtain b s3 where d:
    "detectPreviousCrash ((fout_open fileName (s\<lparr>fs := w\<rparr>))\<lparr>s_initialized := True\<rparr>) =
       Inr (b, s3)"
    unfolding ensureFileOpen_first [OF False] w by (auto split: sum.splits)
  have "s1 = (if b then fout_write crash_marker s3 else s3)"
    using assms by (simp add: ensureFileOpen_first [OF False] w d)
  with False w d show ?thesis by (rule first)
qed

lemma ensureFileOpen_count: "ensureFileOpen s = Inr s1 \<Longrightarrow> s_count s1 = s_count s"
  by (erule ensureFileOpen_cases) (auto dest: detectPreviousCrash_frame(1))

lemma ensureFileOpen_initialized: "ensureFileOpen s = Inr s1 \<Longrightarrow> s_initialized s1"
  by (erule ensureFileOpen_cases) (auto dest: detectPreviousCrash_frame(4))

lemma ensureFileOpen_good_open:
  assumes "ensureFileOpen s = Inr s1" and "good (s_fout s1)"
  shows "is_open (s_fout s1)"
  using assms(1)
proof (cases rule: ensureFileOpen_cases)
  case opened
  then show ?thesis by simp
next
  case reopen
  then show ?thesis using assms(2) by (simp add: fout_open_good_open)
next
  case (first w b s3)
  let ?s2 = "(fout_open fileName (s\<lparr>fs := w\<rparr>))\<lparr>s_initialized := True\<rparr>"
  have f: "s_fout s3 = s_fout (fout_open fileName (s\<lparr>fs := w\<rparr>))"
    using detectPreviousCrash_frame(2) [OF first(3)] by simp
  have "good (s_fout s3)"
    using assms(2) first(4) by (auto dest: fout_write_good split: if_splits)
  then have "is_open (s_fout s3)"
    unfolding f by (rule fout_open_good_open)
  then show ?thesis
    using first(4) by simp
qed

lemma ensureFileOpen_idem:
  assumes "ensureFileOpen s = Inr s1"
  shows "ensureFileOpen s1 = Inr s1"
proof (cases "is_open (s_fout s1)")
  case True
  then show ?thesis
    using ensureFileOpen_initialized [OF assms] by (simp add: ensureFileOpen_open)
next
  case False
  have i: "s_initialized s1"
    by (rule ensureFileOpen_initialized [OF assms])
  have "fout_open fileName s1 = s1"
    using assms
  proof (cases rule: ensureFileOpen_cases)
    case opened
    then show ?thesis using False by simp
  next
    case reopen
    then show ?thesis using False by (simp add: fout_open_again)
  next
    case (first w b s3)
    let ?s1 = "fout_open fileName (s\<lparr>fs := w\<rparr>)"
    note fr = detectPreviousCrash_frame [OF first(3)]
    have c: "\<not> is_open (s_fout ?s1)"
      using False first(4) fr(2) by (simp split: if_splits)
    then have g: "\<not> good (s_fout ?s1)"
      using fout_open_good_open by blast
    then have "s1 = s3"
      using first(4) fr(2) by (simp add: fout_write_closed)
    moreover have "fout_open fileName s3 = s3"
      using c g fr(2,3)
      by (simp add: fout_open_def ofstream_open_def split: if_splits)
    ultimately show ?thesis by simp
  qed
  then show ?thesis
    using i False by (simp add: ensureFileOpen_reopen)
qed

lemma detectPreviousCrash_count_upd:
  "detectPreviousCrash (s\<lparr>s_count := c\<rparr>) =
     (case detectPreviousCrash s of
        Inl e \<Rightarrow> Inl e
      | Inr r \<Rightarrow> Inr (fst r, (snd r)\<lparr>s_count := c\<rparr>))"
  by (simp add: detectPreviousCrash_def Let_def split: option.splits sum.splits)

lemma fout_open_count_upd:
  "fout_open p (s\<lparr>s_count := c\<rparr>) = (fout_open p s)\<lparr>s_count := c\<rparr>"
  by (simp add: fout_open_def split: prod.splits)

lemma fout_write_count_upd:
  "fout_write m (s\<lparr>s_count := c\<rparr>) = (fout_write m s)\<lparr>s_count := c\<rparr>"
  by (simp add: fout_write_def split: prod.splits)

lemma ensureFileOpen_count_upd:
  "ensureFileOpen (s\<lparr>s_count := c\<rparr>) =
     (case ensureFileOpen s of Inl e \<Rightarrow> Inl e | Inr s1 \<Rightarrow> Inr (s1\<lparr>s_count := c\<rparr>))"
proof (cases "s_initialized s")
  case True
  then show ?thesis
    by (simp add: ensureFileOpen_def fout_open_count_upd)
next
  case False
  have e: "(fout_open fileName (s\<lparr>s_count := c, fs := w\<rparr>))\<lparr>s_initialized := True\<rparr> =
           ((fout_open fileName (s\<lparr>fs := w\<rparr>))\<lparr>s_initialized := True\<rparr>)\<lparr>s_count := c\<rparr>" for w
    by (simp add: fout_open_def split: prod.splits)
  show ?thesis
    using False
    by (simp add: ensureFileOpen_first e detectPreviousCrash_count_upd fout_write_count_upd
        split: sum.splits prod.splits)
qed

subsection \<open>What one operation does\<close>

lemma log_after_open:
  assumes "ensureFileOpen s = Inr s1"
  shows "log obj phase ts s =
    Inr (if good (s_fout s1)
         then s1\<lparr>fs := append_file (target (s_fout s1))
                  (record_line ts (m_func obj) phase (m_file obj) (sint (s_count s))) (fs s1)\<rparr>
         else s1)"
  using assms ensureFileOpen_count [OF assms] ensureFileOpen_good_open [OF assms]
  by (simp add: log_def fout_write_ok)

lemma log_throw: "ensureFileOpen s = Inl e \<Longrightarrow> log obj phase ts s = Inl e"
  by (simp add: log_def)

lemma ctor_after_open:
  assumes "ensureFileOpen s = Inr s1"
  shows "ctor func srcfile ln ts s =
    Inr (\<lparr>m_func = func, m_file = srcfile, m_line = ln\<rparr>,
         (if good (s_fout s1)
          then s1\<lparr>fs := append_file (target (s_fout s1))
                   (record_line ts func ''start...'' srcfile (sint (s_count s))) (fs s1)\<rparr>
          else s1)\<lparr>s_count := s_count s + 1\<rparr>)"
  using assms ensureFileOpen_count [OF assms]
  by (simp add: ctor_def init_def log_after_open [OF ensureFileOpen_idem [OF assms]])

lemma ctor1_after_open:
  assumes "ensureFileOpen s = Inr s1"
  shows "ctor1 func name srcfile ln ts s =
    Inr (\<lparr>m_func = func @ '':'' @ name, m_file = srcfile, m_line = ln\<rparr>,
         (if good (s_fout s1)
          then s1\<lparr>fs := append_file (target (s_fout s1))
                   (record_line ts (func @ '':'' @ name) ''start...'' srcfile (sint (s_count s))) (fs s1)\<rparr>
          else s1)\<lparr>s_count := s_count s + 1\<rparr>)"
  using assms ensureFileOpen_count [OF assms]
  by (simp add: ctor1_def init_def log_after_open [OF ensureFileOpen_idem [OF assms]])

lemma ctor_throw: "ensureFileOpen s = Inl e \<Longrightarrow> ctor func srcfile ln ts s = Inl e"
  by (simp add: ctor_def init_def)

lemma dtor_after_open:
  assumes "ensureFileOpen s = Inr s1"
  shows "dtor obj ts s =
    Inr ((if good (s_fout s1)
          then s1\<lparr>fs := append_file (target (s_fout s1))
                   (record_line ts (m_func obj) ''end!'' (m_file obj) (sint (s_count s - 1))) (fs s1)\<rparr>
          else s1)\<lparr>s_count := s_count s - 1\<rparr>)"
proof -
  have "ensureFileOpen (s\<lparr>s_count := s_count s - 1\<rparr>) = Inr (s1\<lparr>s_count := s_count s - 1\<rparr>)"
    by (simp add: ensureFileOpen_count_upd assms)
  from log_after_open [OF this] show ?thesis
    by (simp add: dtor_def)
qed

lemma here_after_open:
  assumes "ensureFileOpen s = Inr s1"
  shows "here obj msg ts s =
    Inr (if good (s_fout s1)
         then s1\<lparr>fs := append_file (target (s_fout s1))
                  (record_line ts (m_func obj) msg (m_file obj) (sint (s_count s))) (fs s1)\<rparr>
         else s1)"
  by (simp add: here_def log_after_open [OF assms])

lemma first_open_empty: "ensureFileOpen (initial (permissive Map.empty)) = Inr fresh_open"
  by (simp add: ensureFileOpen_def initial_def permissive_def rotateIfTooLarge_def fs_exists_def
      fout_open_def ofstream_open_def closed_stream_def contents_def detectPreviousCrash_def
      lastLine_def lastLine_loop.simps rfind_def Let_def fresh_open_def)

lemma fresh_open_stable: "ensureFileOpen fresh_open = Inr fresh_open"
  by (rule ensureFileOpen_idem [OF first_open_empty])

section \<open>The order of writing and counting (C1)\<close>

text \<open>
  C1. Whenever the open inside a constructor returns (state \<open>s1\<close>), the constructor
  writes its Start record with the value the shared counter had before the
  construction and leaves the counter one higher; the destructor writes its End record
  with the value the counter has after the decrement. Both constructors and the
  destructor follow this one convention in every state. The record is appended to the
  file of the stream when the stream is good and dropped otherwise.
\<close>

theorem start_before_increment_end_after_decrement:
  assumes "ensureFileOpen s = Inr s1"
  shows "ctor func srcfile ln ts s =
           Inr (\<lparr>m_func = func, m_file = srcfile, m_line = ln\<rparr>,
                (if good (s_fout s1)
                 then s1\<lparr>fs := append_file (target (s_fout s1))
                          (record_line ts func ''start...'' srcfile (sint (s_count s))) (fs s1)\<rparr>
                 else s1)\<lparr>s_count := s_count s + 1\<rparr>)
       \<and> ctor1 func name srcfile ln ts s =
           Inr (\<lparr>m_func = func @ '':'' @ name, m_file = srcfile, m_line = ln\<rparr>,
                (if good (s_fout s1)
                 then s1\<lparr>fs := append_file (target (s_fout s1))
                          (record_line ts (func @ '':'' @ name) ''start...'' srcfile
                             (sint (s_count s))) (fs s1)\<rparr>
                 else s1)\<lparr>s_count := s_count s + 1\<rparr>)
       \<and> dtor obj ts s =
           Inr ((if good (s_fout s1)
                 then s1\<lparr>fs := append_file (target (s_fout s1))
                          (record_line ts (m_func obj) ''end!'' (m_file obj)
                             (sint (s_count s - 1))) (fs s1)\<rparr>
                 else s1)\<lparr>s_count := s_count s - 1\<rparr>)"
  using ctor_after_open [OF assms] ctor1_after_open [OF assms] dtor_after_open [OF assms]
  by simp

theorem start_before_increment_end_after_decrement_witness:
  "ensureFileOpen (fresh_open\<lparr>s_count := 1\<rparr>) = Inr (fresh_open\<lparr>s_count := 1\<rparr>)
   \<and> ctor ''foo'' ''file.cpp'' 10 ''12:00:00'' (fresh_open\<lparr>s_count := 1\<rparr>) =
       Inr (\<lparr>m_func = ''foo'', m_file = ''file.cpp'', m_line = 10\<rparr>,
            fresh_open\<lparr>fs := append_file fileName
                (record_line ''12:00:00'' ''foo'' ''start...'' ''file.cpp'' 1) (fs fresh_open),
              s_count := 2\<rparr>)
   \<and> dtor \<lparr>m_func = ''foo'', m_file = ''file.cpp'', m_line = 10\<rparr> ''12:00:00''
         (fresh_open\<lparr>s_count := 1\<rparr>) =
       Inr (fresh_open\<lparr>fs := append_file fileName
                (record_line ''12:00:00'' ''foo'' ''end!'' ''file.cpp'' 0) (fs fresh_open),
              s_count := 0\<rparr>)"
proof -
  have h: "ensureFileOpen (fresh_open\<lparr>s_count := 1\<rparr>) = Inr (fresh_open\<lparr>s_count := 1\<rparr>)"
    by (simp add: ensureFileOpen_count_upd fresh_open_stable)
  have g: "good (s_fout fresh_open)" "target (s_fout fresh_open) = fileName"
    by (simp_all add: fresh_open_def)
  show ?thesis
    using h start_before_increment_end_after_decrement [OF h, of "''foo''" "''file.cpp''" 10
        "''12:00:00''" "''x''" "\<lparr>m_func = ''foo'', m_file = ''file.cpp'', m_line = 10\<rparr>"]
    by (simp add: g)
qed

section \<open>Programs in a state where the file has been opened\<close>

lemma record_line_nonempty: "record_line ts func phase srcfile n \<noteq> []"
  by (simp add: record_line_def)

lemma appended_count_upd: "appended txt (s\<lparr>s_count := c\<rparr>) = (appended txt s)\<lparr>s_count := c\<rparr>"
  by (simp add: appended_def)

lemma append_file_twice: "append_file p b (append_file p a w) = append_file p (a @ b) w"
  by (simp add: append_file_def contents_def)

lemma appended_twice: "appended b (appended a s) = appended (a @ b) s"
  by (simp add: appended_def append_file_twice)

lemma appended_nil: "appended [] s = s"
  by (simp add: appended_def)

lemma appended_frame [simp]:
  "s_count (appended txt s) = s_count s"
  "s_fout (appended txt s) = s_fout s"
  "s_initialized (appended txt s) = s_initialized s"
  "s_crashedLastTime (appended txt s) = s_crashedLastTime s"
  "s_crashChecked (appended txt s) = s_crashChecked s"
  by (simp_all add: appended_def)

lemma stable_appended:
  assumes "ensureFileOpen s = Inr s"
  shows "ensureFileOpen (appended txt s) = Inr (appended txt s)"
proof (cases "good (s_fout s) \<and> txt \<noteq> []")
  case True
  then have "is_open (s_fout s)"
    using ensureFileOpen_good_open [OF assms] by simp
  moreover have "s_initialized s"
    by (rule ensureFileOpen_initialized [OF assms])
  ultimately show ?thesis
    by (simp add: ensureFileOpen_open)
next
  case False
  then show ?thesis
    using assms by (auto simp: appended_def)
qed

lemma stable_count_upd:
  "ensureFileOpen s = Inr s \<Longrightarrow> ensureFileOpen (s\<lparr>s_count := c\<rparr>) = Inr (s\<lparr>s_count := c\<rparr>)"
  by (simp add: ensureFileOpen_count_upd)

lemma log_stable:
  assumes "ensureFileOpen s = Inr s"
  shows "log obj phase ts s =
    Inr (appended (record_line ts (m_func obj) phase (m_file obj) (sint (s_count s))) s)"
  by (simp add: log_after_open [OF assms] appended_def record_line_nonempty)

lemma ctor_stable:
  assumes "ensureFileOpen s = Inr s"
  shows "ctor func srcfile ln ts s =
    Inr (\<lparr>m_func = func, m_file = srcfile, m_line = ln\<rparr>,
         (appended (record_line ts func ''start...'' srcfile (sint (s_count s))) s)
           \<lparr>s_count := s_count s + 1\<rparr>)"
  by (simp add: ctor_after_open [OF assms] appended_def record_line_nonempty)

lemma ctor1_stable:
  assumes "ensureFileOpen s = Inr s"
  shows "ctor1 func name srcfile ln ts s =
    Inr (\<lparr>m_func = func @ '':'' @ name, m_file = srcfile, m_line = ln\<rparr>,
         (appended (record_line ts (func @ '':'' @ name) ''start...'' srcfile (sint (s_count s))) s)
           \<lparr>s_count := s_count s + 1\<rparr>)"
  by (simp add: ctor1_after_open [OF assms] appended_def record_line_nonempty)

lemma dtor_stable:
  assumes "ensureFileOpen s = Inr s"
  shows "dtor obj ts s =
    Inr ((appended (record_line ts (m_func obj) ''end!'' (m_file obj) (sint (s_count s - 1))) s)
           \<lparr>s_count := s_count s - 1\<rparr>)"
  by (simp add: dtor_after_open [OF assms] appended_def record_line_nonempty)

lemma here_stable:
  assumes "ensureFileOpen s = Inr s"
  shows "here obj msg ts s =
    Inr (appended (record_line ts (m_func obj) msg (m_file obj) (sint (s_count s))) s)"
  by (simp add: here_def log_stable [OF assms])

lemma run_stable:
  assumes "ensureFileOpen s = Inr s" and "well_nested (length stk) evs"
  shows "run evs (s, stk) =
    Inr ((appended (lines stk evs (loaded (s_count s) evs)) s)\<lparr>s_count := end_count (s_count s) evs\<rparr>,
         end_stack stk evs)"
  using assms
proof (induction evs arbitrary: s stk)
  case Nil
  then show ?case by (simp add: appended_nil)
next
  case (Cons ev evs)
  obtain ts a where ev: "ev = (ts, a)" by (cases ev)
  note st = Cons.prems(1)
  show ?case
  proof (cases a)
    case (Start func srcfile ln)
    let ?obj = "\<lparr>m_func = func, m_file = srcfile, m_line = ln\<rparr>"
    let ?l = "record_line ts func ''start...'' srcfile (sint (s_count s))"
    let ?s1 = "(appended ?l s)\<lparr>s_count := s_count s + 1\<rparr>"
    have e: "exec ev (s, stk) = Inr (?s1, ?obj # stk)"
      by (simp add: ev Start ctor_stable [OF st])
    have st1: "ensureFileOpen ?s1 = Inr ?s1"
      by (rule stable_count_upd [OF stable_appended [OF st]])
    have wn: "well_nested (length (?obj # stk)) evs"
      using Cons.prems(2) by (simp add: ev Start)
    have r: "run (ev # evs) (s, stk) = run evs (?s1, ?obj # stk)"
      by (simp only: run.simps e sum.case)
    show ?thesis
      unfolding r using Cons.IH [OF st1 wn]
      by (simp add: ev Start appended_count_upd appended_twice)
  next
    case (Start1 func name srcfile ln)
    let ?obj = "\<lparr>m_func = func @ '':'' @ name, m_file = srcfile, m_line = ln\<rparr>"
    let ?l = "record_line ts (func @ '':'' @ name) ''start...'' srcfile (sint (s_count s))"
    let ?s1 = "(appended ?l s)\<lparr>s_count := s_count s + 1\<rparr>"
    have e: "exec ev (s, stk) = Inr (?s1, ?obj # stk)"
      by (simp add: ev Start1 ctor1_stable [OF st])
    have st1: "ensureFileOpen ?s1 = Inr ?s1"
      by (rule stable_count_upd [OF stable_appended [OF st]])
    have wn: "well_nested (length (?obj # stk)) evs"
      using Cons.prems(2) by (simp add: ev Start1)
    have r: "run (ev # evs) (s, stk) = run evs (?s1, ?obj # stk)"
      by (simp only: run.simps e sum.case)
    show ?thesis
      unfolding r using Cons.IH [OF st1 wn]
      by (simp add: ev Start1 appended_count_upd appended_twice)
  next
    case (Here msg)
    from Cons.prems(2) obtain obj stk' where stk: "stk = obj # stk'"
      by (cases stk) (auto simp: ev Here)
    let ?l = "record_line ts (m_func obj) msg (m_file obj) (sint (s_count s))"
    let ?s1 = "appended ?l s"
    have e: "exec ev (s, stk) = Inr (?s1, stk)"
      by (simp add: ev Here stk here_stable [OF st])
    have st1: "ensureFileOpen ?s1 = Inr ?s1"
      by (rule stable_appended [OF st])
    have wn: "well_nested (length stk) evs"
      using Cons.prems(2) by (simp add: ev Here)
    have r: "run (ev # evs) (s, stk) = run evs (?s1, stk)"
      by (simp only: run.simps e sum.case)
    show ?thesis
      unfolding r using Cons.IH [OF st1 wn]
      by (simp add: ev Here stk appended_twice)
  next
    case End
    from Cons.prems(2) obtain obj stk' where stk: "stk = obj # stk'"
      by (cases stk) (auto simp: ev End)
    let ?l = "record_line ts (m_func obj) ''end!'' (m_file obj) (sint (s_count s - 1))"
    let ?s1 = "(appended ?l s)\<lparr>s_count := s_count s - 1\<rparr>"
    have e: "exec ev (s, stk) = Inr (?s1, stk')"
      by (simp add: ev End stk dtor_stable [OF st])
    have st1: "ensureFileOpen ?s1 = Inr ?s1"
      by (rule stable_count_upd [OF stable_appended [OF st]])
    have wn: "well_nested (length stk') evs"
      using Cons.prems(2) by (simp add: ev End stk)
    have r: "run (ev # evs) (s, stk) = run evs (?s1, stk')"
      by (simp only: run.simps e sum.case)
    show ?thesis
      unfolding r using Cons.IH [OF st1 wn]
      by (simp add: ev End stk appended_count_upd appended_twice)
  qed
qed

lemma exec_after_open:
  assumes "ensureFileOpen s = Inr s1"
  shows "exec ev (s, stk) = exec ev (s1, stk)"
proof -
  note i = ensureFileOpen_idem [OF assms]
  note c = ensureFileOpen_count [OF assms]
  obtain ts a where ev: "ev = (ts, a)" by (cases ev)
  show ?thesis
  proof (cases a)
    case (Start func srcfile ln)
    then show ?thesis
      by (simp add: ev ctor_after_open [OF assms] ctor_after_open [OF i] c)
  next
    case (Start1 func name srcfile ln)
    then show ?thesis
      by (simp add: ev ctor1_after_open [OF assms] ctor1_after_open [OF i] c)
  next
    case (Here msg)
    then show ?thesis
      by (cases stk) (simp_all add: ev here_after_open [OF assms] here_after_open [OF i] c)
  next
    case End
    then show ?thesis
      by (cases stk) (simp_all add: ev dtor_after_open [OF assms] dtor_after_open [OF i] c)
  qed
qed

lemma run_after_open:
  assumes "ensureFileOpen s = Inr s1" and "evs \<noteq> []"
  shows "run evs (s, stk) = run evs (s1, stk)"
  using assms(2) by (cases evs) (simp_all add: exec_after_open [OF assms(1)])

lemma run_from_open:
  assumes "ensureFileOpen s = Inr s1" and "evs \<noteq> []" and "well_nested (length stk) evs"
  shows "run evs (s, stk) =
    Inr ((appended (lines stk evs (loaded (s_count s) evs)) s1)\<lparr>s_count := end_count (s_count s) evs\<rparr>,
         end_stack stk evs)"
  using run_stable [OF ensureFileOpen_idem [OF assms(1)] assms(3)]
  by (simp add: run_after_open [OF assms(1,2)] ensureFileOpen_count [OF assms(1)])

lemma to_string_0: "to_string 0 = ''0''"
  by (simp add: to_string_def show_nat.simps digit_char_def)

lemma to_string_1: "to_string 1 = ''1''"
  by (simp add: to_string_def show_nat.simps digit_char_def)

section \<open>The scenario of one scope with one annotation (C4)\<close>

text \<open>
  C4, as amended. With the shared counter at 0 and the diagnostics file open and good
  after the open of the constructor, constructing a ScopeLogger with label "foo" and
  source "file.cpp", annotating it with "halfway" and destroying it appends exactly
  three records, whose count fields are 0 for the Start record, 1 for the annotation
  and 0 for the End record: the count of the Start record does not include the scope
  being started.
\<close>

theorem scenario_counts_0_1_0:
  assumes "ensureFileOpen s = Inr s1" and "good (s_fout s1)" and "s_count s = 0"
  shows "run [(t1, Start ''foo'' ''file.cpp'' ln), (t2, Here ''halfway''), (t3, End)] (s, []) =
    Inr (s1\<lparr>fs := append_file (target (s_fout s1))
              (record_line t1 ''foo'' ''start...'' ''file.cpp'' 0
               @ record_line t2 ''foo'' ''halfway'' ''file.cpp'' 1
               @ record_line t3 ''foo'' ''end!'' ''file.cpp'' 0) (fs s1),
            s_count := 0\<rparr>, [])"
proof -
  let ?evs = "[(t1, Start ''foo'' ''file.cpp'' ln), (t2, Here ''halfway''), (t3, End)]"
  have "run ?evs (s, []) =
    Inr ((appended (lines [] ?evs (loaded (s_count s) ?evs)) s1)\<lparr>s_count := end_count (s_count s) ?evs\<rparr>,
         end_stack [] ?evs)"
    by (rule run_from_open [OF assms(1)]) simp_all
  then show ?thesis
    using assms(2,3) by (simp add: appended_def record_line_nonempty)
qed

theorem scenario_counts_0_1_0_witness:
  "ensureFileOpen (initial (permissive Map.empty)) = Inr fresh_open
   \<and> good (s_fout fresh_open) \<and> s_count (initial (permissive Map.empty)) = 0
   \<and> run scenario_foo (initial (permissive Map.empty), []) =
       Inr (fresh_open\<lparr>fs := permissive [fileName \<mapsto>
              ''[2025-01-01 10:00:00] foo:start... file.cpp |0\<newline>[2025-01-01 10:00:01] foo:halfway file.cpp |1\<newline>[2025-01-01 10:00:02] foo:end! file.cpp |0\<newline>'']\<rparr>, [])"
proof -
  have h: "ensureFileOpen (initial (permissive Map.empty)) = Inr fresh_open"
    by (rule first_open_empty)
  have g: "good (s_fout fresh_open)"
    by (simp add: fresh_open_def)
  have c: "s_count (initial (permissive Map.empty)) = 0"
    by (simp add: initial_def)
  show ?thesis
    using h g c scenario_counts_0_1_0 [OF h g c, of "''2025-01-01 10:00:00''" 10
        "''2025-01-01 10:00:01''" "''2025-01-01 10:00:02''"]
    by (simp add: scenario_foo_def fresh_open_def append_file_def contents_def permissive_def
        record_line_def to_string_0 to_string_1 nl_def)
qed

text \<open>
  C4 as stated fails: run from a fresh process on an empty file system, the scenario
  leaves a Start record with count 0, not 1.
\<close>

theorem scenario_start_count_counterexample:
  "final_contents scenario_foo (permissive Map.empty) =
     Some ''[2025-01-01 10:00:00] foo:start... file.cpp |0\<newline>[2025-01-01 10:00:01] foo:halfway file.cpp |1\<newline>[2025-01-01 10:00:02] foo:end! file.cpp |0\<newline>''
   \<and> final_contents scenario_foo (permissive Map.empty) \<noteq>
     Some ''[2025-01-01 10:00:00] foo:start... file.cpp |1\<newline>[2025-01-01 10:00:01] foo:halfway file.cpp |1\<newline>[2025-01-01 10:00:02] foo:end! file.cpp |0\<newline>''"
proof -
  have "run scenario_foo (initial (permissive Map.empty), []) =
    Inr ((appended (lines [] scenario_foo (loaded (s_count (initial (permissive Map.empty))) scenario_foo)) fresh_open)
           \<lparr>s_count := end_count (s_count (initial (permissive Map.empty))) scenario_foo\<rparr>,
         end_stack [] scenario_foo)"
    by (rule run_from_open [OF first_open_empty]) (simp_all add: scenario_foo_def)
  then show ?thesis
    by (simp add: final_contents_def scenario_foo_def initial_def appended_def fresh_open_def
        append_file_def contents_def permissive_def record_line_def to_string_0 to_string_1 nl_def)
qed

section \<open>Opening twice (C7)\<close>

text \<open>
  C7. A second call of the ensure-open operation, made in the state the first call
  returned, returns that very state: it renames nothing, checks no size and writes
  nothing, whatever the size of the file is by then. Calling the operation twice is
  calling it once; when the first call raises, there is no state to call it again in.
\<close>

theorem ensureFileOpen_twice:
  "(case ensureFileOpen s of Inl e \<Rightarrow> Inl e | Inr s1 \<Rightarrow> ensureFileOpen s1) = ensureFileOpen s"
  by (cases "ensureFileOpen s") (simp_all add: ensureFileOpen_idem)

section \<open>The stored line number (C10)\<close>

text \<open>
  C10. No operation reads the line number stored in a ScopeLogger: \<open>log\<close>, \<open>here\<close>
  and the destructor do the same for two objects that differ in the line only, and
  two constructions that differ in the line argument only raise the same error or
  return objects with the same label and source and the same state, files included.
\<close>

theorem line_never_written:
  "log (obj\<lparr>m_line := l\<rparr>) phase ts s = log obj phase ts s
   \<and> here (obj\<lparr>m_line := l\<rparr>) msg ts s = here obj msg ts s
   \<and> dtor (obj\<lparr>m_line := l\<rparr>) ts s = dtor obj ts s
   \<and> map_sum id (\<lambda>p. (m_func (fst p), m_file (fst p), snd p)) (ctor func srcfile l1 ts s) =
       map_sum id (\<lambda>p. (m_func (fst p), m_file (fst p), snd p)) (ctor func srcfile l2 ts s)
   \<and> map_sum id (\<lambda>p. (m_func (fst p), m_file (fst p), snd p)) (ctor1 func name srcfile l1 ts s) =
       map_sum id (\<lambda>p. (m_func (fst p), m_file (fst p), snd p)) (ctor1 func name srcfile l2 ts s)"
  by (simp add: log_def here_def dtor_def ctor_def ctor1_def init_def Let_def split: sum.splits)

section \<open>The first open of a process\<close>

lemma takeWhile_rev_last:
  assumes "c \<notin> set suf"
  shows "takeWhile (\<lambda>x. x \<noteq> c) (rev (pre @ c # suf)) = rev suf"
proof -
  have "takeWhile (\<lambda>x. x \<noteq> c) (rev suf @ c # rev pre) = rev suf"
    using assms by (subst takeWhile_append2) auto
  then show ?thesis by simp
qed

lemma rfind_last:
  assumes "c \<notin> set suf"
  shows "rfind (pre @ c # suf) c = Some (length pre)"
  by (simp add: rfind_def takeWhile_rev_last [OF assms] del: rev_append rev.simps)

lemma rfind_none: "c \<notin> set line \<Longrightarrow> rfind line c = None"
  by (simp add: rfind_def)

lemma count_field_last:
  "CHR ''|'' \<notin> set suf \<Longrightarrow> count_field (pre @ CHR ''|'' # suf) = Some suf"
  by (simp add: count_field_def takeWhile_rev_last del: rev_append rev.simps)

lemma count_field_none: "CHR ''|'' \<notin> set line \<Longrightarrow> count_field line = None"
  by (simp add: count_field_def)

text \<open>The check of the source and the verdict of the specification agree.\<close>

lemma detect_verdict:
  "(case rfind line (CHR ''|'') of
      None \<Rightarrow> False
    | Some pos \<Rightarrow> (case stoi (substr line (pos + 1)) of Inr n \<Rightarrow> 0 < n | Inl e \<Rightarrow> False)) =
   crash_verdict line"
proof (cases "CHR ''|'' \<in> set line")
  case True
  then obtain pre suf where l: "line = pre @ CHR ''|'' # suf" and n: "CHR ''|'' \<notin> set suf"
    using split_list_last by fastforce
  show ?thesis
    by (simp add: l rfind_last [OF n] crash_verdict_def count_field_last [OF n] substr_def
        split: sum.splits)
next
  case False
  then show ?thesis
    by (simp add: rfind_none crash_verdict_def count_field_none)
qed

lemma lastLine_loop_Nil: "lastLine_loop [] l = l"
  by (simp add: lastLine_loop.simps)

lemma crash_verdict_Nil: "\<not> crash_verdict []"
  by (simp add: crash_verdict_def count_field_def)

lemma lastLine_missing: "files w p = None \<Longrightarrow> lastLine p w = []"
  by (simp add: lastLine_def)

lemma detectPreviousCrash_first:
  assumes "\<not> s_crashChecked s" and "\<not> s_crashedLastTime s" and "can_stat (fs s) fileName"
  shows "detectPreviousCrash s =
    Inr (crash_verdict (lastLine fileName (fs s)),
         s\<lparr>s_crashedLastTime := crash_verdict (lastLine fileName (fs s)), s_crashChecked := True\<rparr>)"
proof (cases "files (fs s) fileName = None")
  case True
  then have "lastLine fileName (fs s) = []"
    by (simp add: lastLine_missing)
  then show ?thesis
    using assms True by (simp add: detectPreviousCrash_def fs_exists_def crash_verdict_Nil)
next
  case False
  show ?thesis
  proof (cases "rfind (lastLine fileName (fs s)) (CHR ''|'')")
    case None
    then have "\<not> crash_verdict (lastLine fileName (fs s))"
      using detect_verdict [of "lastLine fileName (fs s)"] by simp
    then show ?thesis
      using assms False None by (simp add: detectPreviousCrash_def fs_exists_def)
  next
    case (Some pos)
    then have v: "crash_verdict (lastLine fileName (fs s)) =
      (case stoi (substr (lastLine fileName (fs s)) (pos + 1)) of Inr n \<Rightarrow> 0 < n | Inl e \<Rightarrow> False)"
      using detect_verdict [of "lastLine fileName (fs s)"] by simp
    show ?thesis
      using assms False Some
      by (simp add: detectPreviousCrash_def fs_exists_def v split: sum.splits)
  qed
qed

lemma lastLine_created:
  "lastLine p (w\<lparr>files := (files w)(p \<mapsto> contents w p)\<rparr>) = lastLine p w"
  by (cases "files w p") (simp_all add: lastLine_def contents_def lastLine_loop_Nil)

lemma first_open:
  assumes "rotateIfTooLarge fileName 2097152 w = Inr w1"
  shows "ensureFileOpen (initial w) = Inr (first_state w1)"
proof -
  have i: "\<not> s_initialized (initial w)" "fs (initial w) = w"
    by (simp_all add: initial_def)
  have st: "can_stat w1 fileName"
    using rotateIfTooLarge_perms(4,6) [OF assms] by simp
  show ?thesis
  proof (cases "can_append w1 fileName")
  case True
  let ?w2 = "w1\<lparr>files := (files w1)(fileName \<mapsto> contents w1 fileName)\<rparr>"
  let ?s2 = "\<lparr>s_count = 0, s_fout = \<lparr>is_open = True, good = True, target = fileName\<rparr>,
      s_initialized = True, s_crashedLastTime = False, s_crashChecked = False, fs = ?w2\<rparr>"
  have o: "(fout_open fileName ((initial w)\<lparr>fs := w1\<rparr>))\<lparr>s_initialized := True\<rparr> = ?s2"
    using True by (simp add: fout_open_def ofstream_open_def initial_def closed_stream_def)
  have d: "detectPreviousCrash ?s2 =
    Inr (crash_verdict (lastLine fileName w1),
         ?s2\<lparr>s_crashedLastTime := crash_verdict (lastLine fileName w1), s_crashChecked := True\<rparr>)"
    using detectPreviousCrash_first [of ?s2] st by (simp add: lastLine_created)
  have "ensureFileOpen (initial w) =
    (case detectPreviousCrash ?s2 of
       Inl e \<Rightarrow> Inl e
     | Inr (crashed, s3) \<Rightarrow> Inr (if crashed then fout_write crash_marker s3 else s3))"
    unfolding ensureFileOpen_first [OF i(1)] i(2) assms by (simp add: o)
  then show ?thesis
    unfolding d using True
    by (simp add: first_state_def fout_write_def ofstream_write_def append_file_def contents_def)
next
  case False
  let ?s2 = "\<lparr>s_count = 0, s_fout = \<lparr>is_open = False, good = False, target = []\<rparr>,
      s_initialized = True, s_crashedLastTime = False, s_crashChecked = False, fs = w1\<rparr>"
  have o: "(fout_open fileName ((initial w)\<lparr>fs := w1\<rparr>))\<lparr>s_initialized := True\<rparr> = ?s2"
    using False by (simp add: fout_open_def ofstream_open_def initial_def closed_stream_def)
  have d: "detectPreviousCrash ?s2 =
    Inr (crash_verdict (lastLine fileName w1),
         ?s2\<lparr>s_crashedLastTime := crash_verdict (lastLine fileName w1), s_crashChecked := True\<rparr>)"
    using detectPreviousCrash_first [of ?s2] st by simp
  have "ensureFileOpen (initial w) =
    (case detectPreviousCrash ?s2 of
       Inl e \<Rightarrow> Inl e
     | Inr (crashed, s3) \<Rightarrow> Inr (if crashed then fout_write crash_marker s3 else s3))"
    unfolding ensureFileOpen_first [OF i(1)] i(2) assms by (simp add: o)
  then show ?thesis
    unfolding d using False
    by (simp add: first_state_def fout_write_def ofstream_write_def)
  qed
qed

lemma rotate_small:
  assumes "can_stat w fname"
    and "files w fname = None \<or> (can_size w fname \<and> length (contents w fname) \<le> m)"
  shows "rotateIfTooLarge fname m w = Inr w"
  using assms
  by (auto simp: rotateIfTooLarge_def fs_exists_def fs_file_size_def)

lemma rotate_big:
  assumes "files w fname = Some c" and "m < length c"
    and "can_stat w fname" and "can_size w fname" and "can_stat w (fname @ ''.old'')"
    and "can_unlink w fname"
    and "files w (fname @ ''.old'') = None \<or> can_unlink w (fname @ ''.old'')"
  shows "rotateIfTooLarge fname m w =
    Inr (w\<lparr>files := (files w)(fname @ ''.old'' \<mapsto> c, fname := None)\<rparr>)"
  using assms
  by (auto simp: rotateIfTooLarge_def fs_exists_def fs_file_size_def contents_def
      fs_remove_def fs_rename_def Let_def)

lemma rotate_throw:
  assumes "files w fname = Some c" and "m < length c" and "\<not> can_unlink w fname"
  shows "rotateIfTooLarge fname m w = Inl filesystem_error"
  using assms
  by (auto simp: rotateIfTooLarge_def fs_exists_def fs_file_size_def contents_def
      fs_remove_def fs_rename_def Let_def split: sum.splits)

lemma Log_rotate_eq: "Log_rotateIfTooLarge fname m w = rotateIfTooLarge fname m w"
  by (simp add: Log_rotateIfTooLarge_def rotateIfTooLarge_def)

subsection \<open>The example files\<close>

lemma lastLine_loop_line:
  assumes "nl \<notin> set a"
  shows "lastLine_loop (a @ nl # rest) l = lastLine_loop rest a"
proof -
  have t: "takeWhile (\<lambda>x. x \<noteq> nl) (a @ nl # rest) = a"
    using assms by (subst takeWhile_append2) auto
  have d: "dropWhile (\<lambda>x. x \<noteq> nl) (a @ nl # rest) = nl # rest"
    using assms by (subst dropWhile_append2) auto
  obtain c cs where e: "a @ nl # rest = c # cs"
    by (cases "a @ nl # rest") auto
  have "getline (a @ nl # rest) = Some (a, rest)"
    unfolding e getline.simps unfolding e [symmetric] t d by simp
  then show ?thesis
    by (subst lastLine_loop.simps) simp
qed

lemma lastLine_previous_log:
  "lastLine_loop previous_log l = ''[2025-01-01 09:00:01] main:working main.cpp |1''"
  unfolding previous_log_def
  by (simp add: lastLine_loop.simps nl_def)

lemma lastLine_loop_append:
  assumes "xs = [] \<or> last xs = nl"
  shows "lastLine_loop (xs @ ys) l = lastLine_loop ys (lastLine_loop xs l)"
  using assms
proof (induction xs arbitrary: l rule: length_induct)
  case (1 xs)
  show ?case
  proof (cases "xs = []")
    case True
    then show ?thesis
      by (simp add: lastLine_loop_Nil)
  next
    case False
    with "1.prems" have "nl \<in> set xs"
      using last_in_set by fastforce
    then obtain a rest where xs: "xs = a @ nl # rest" and a: "nl \<notin> set a"
      by (meson split_list_first)
    have r: "rest = [] \<or> last rest = nl"
      using "1.prems" False by (auto simp: xs split: if_splits)
    have "length rest < length xs"
      by (simp add: xs)
    with "1.IH" r have "lastLine_loop (rest @ ys) a = lastLine_loop ys (lastLine_loop rest a)"
      by blast
    moreover have "lastLine_loop (xs @ ys) l = lastLine_loop (rest @ ys) a"
      using lastLine_loop_line [OF a, of "rest @ ys" l] by (simp add: xs)
    moreover have "lastLine_loop xs l = lastLine_loop rest a"
      using lastLine_loop_line [OF a, of rest l] by (simp add: xs)
    ultimately show ?thesis
      by simp
  qed
qed

lemma closed_scopes_end: "concat (replicate n closed_scope) = [] \<or> last (concat (replicate n closed_scope)) = nl"
  by (induction n) (auto simp: closed_scope_def)

lemma lastLine_big_log:
  "lastLine_loop big_log l = ''[2025-01-01 09:00:01] main:working main.cpp |1''"
  unfolding big_log_def
  by (simp only: lastLine_loop_append [OF closed_scopes_end] lastLine_previous_log)

lemma length_closed_scopes: "length (concat (replicate n closed_scope)) = n * length closed_scope"
  by (induction n) simp_all

lemma length_big_log: "2097152 < length big_log"
  unfolding big_log_def length_append length_closed_scopes
  by (simp add: closed_scope_def)

lemma verdict_working: "crash_verdict ''[2025-01-01 09:00:01] main:working main.cpp |1''"
  by (simp add: crash_verdict_def count_field_def stoi_def isspace_def isdigit_def digit_val_def)

subsection \<open>The rotation step and the operations after it\<close>

lemma old_neq: "fname @ ''.old'' \<noteq> fname" "fname \<noteq> fname @ ''.old''"
  by simp_all

lemma fileName_old: "fileName @ ''.old'' = ''diagnostics.log.old''"
  by (simp add: fileName_def)

lemma first_state_backup:
  "files (fs (first_state w1)) ''diagnostics.log.old'' = files w1 ''diagnostics.log.old''"
  by (simp add: first_state_def fileName_def)

lemma first_state_contents:
  "contents (fs (first_state w1)) fileName =
     contents w1 fileName
     @ (if can_append w1 fileName \<and> crash_verdict (lastLine fileName w1) then crash_marker else [])"
  by (simp add: first_state_def contents_def)

lemma diag_rotated:
  assumes "files w fileName = Some c" and "2097152 < length c"
    and "can_stat w fileName" and "can_size w fileName" and "can_stat w ''diagnostics.log.old''"
    and "can_unlink w fileName"
    and "files w ''diagnostics.log.old'' = None \<or> can_unlink w ''diagnostics.log.old''"
  shows "\<exists>s1. ensureFileOpen (initial w) = Inr s1
      \<and> files (fs s1) ''diagnostics.log.old'' = Some c
      \<and> files (fs s1) fileName = (if can_append w fileName then Some [] else None)"
proof -
  let ?w1 = "w\<lparr>files := (files w)(fileName @ ''.old'' \<mapsto> c, fileName := None)\<rparr>"
  have r: "rotateIfTooLarge fileName 2097152 w = Inr ?w1"
    using assms by (intro rotate_big) (simp_all add: fileName_old)
  have l: "lastLine fileName ?w1 = []"
    by (simp add: lastLine_missing)
  have "files (fs (first_state ?w1)) ''diagnostics.log.old'' = Some c"
    by (simp add: first_state_backup) (simp add: fileName_def)
  moreover have "files (fs (first_state ?w1)) fileName = (if can_append w fileName then Some [] else None)"
    by (simp add: first_state_def l crash_verdict_Nil contents_def)
  ultimately show ?thesis
    using first_open [OF r] by blast
qed

lemma diag_not_rotated:
  assumes "can_stat w fileName"
    and "files w fileName = None \<or> (can_size w fileName \<and> length (contents w fileName) \<le> 2097152)"
  shows "\<exists>s1. ensureFileOpen (initial w) = Inr s1
      \<and> files (fs s1) ''diagnostics.log.old'' = files w ''diagnostics.log.old''
      \<and> contents (fs s1) fileName =
          contents w fileName
          @ (if can_append w fileName \<and> crash_verdict (lastLine fileName w) then crash_marker else [])"
  using first_open [OF rotate_small [OF assms]] first_state_backup [of w] first_state_contents [of w]
  by blast

lemma fout_open_contents: "contents (fs (fout_open p s)) q = contents (fs s) q"
  by (simp add: fout_open_def ofstream_open_def contents_def)

lemma fout_open_other: "q \<noteq> p \<Longrightarrow> files (fs (fout_open p s)) q = files (fs s) q"
  by (simp add: fout_open_def ofstream_open_def)

lemma diag_initialized:
  assumes "s_initialized s"
  shows "\<exists>s1. ensureFileOpen s = Inr s1 \<and> s_initialized s1
      \<and> files (fs s1) ''diagnostics.log.old'' = files (fs s) ''diagnostics.log.old''
      \<and> contents (fs s1) fileName = contents (fs s) fileName"
proof (cases "is_open (s_fout s)")
  case True
  then show ?thesis
    using assms by (simp add: ensureFileOpen_open)
next
  case False
  have "files (fs (fout_open fileName s)) ''diagnostics.log.old'' = files (fs s) ''diagnostics.log.old''"
    by (rule fout_open_other) (simp add: fileName_def)
  then show ?thesis
    using assms False by (simp add: ensureFileOpen_reopen fout_open_contents)
qed

lemma appended_backup:
  "target (s_fout s) = fileName \<Longrightarrow>
   files (fs (appended txt s)) ''diagnostics.log.old'' = files (fs s) ''diagnostics.log.old''"
  by (simp add: appended_def append_file_def fileName_def)

lemma first_state_target:
  "good (s_fout (first_state w1)) \<Longrightarrow> target (s_fout (first_state w1)) = fileName"
  by (simp add: first_state_def split: if_splits)

lemma first_state_frame [simp]:
  "s_count (first_state w1) = 0"
  "s_crashedLastTime (first_state w1) = crash_verdict (lastLine fileName w1)"
  "good (s_fout (first_state w1)) = can_append w1 fileName"
  by (simp_all add: first_state_def)

lemma initial_count [simp]: "s_count (initial w) = 0"
  by (simp add: initial_def)

text \<open>A whole program, from the start of the process.\<close>

lemma run_from_start:
  assumes "rotateIfTooLarge fileName 2097152 w = Inr w1" and "well_nested 0 evs" and "evs \<noteq> []"
  shows "run evs (initial w, []) =
    Inr ((appended (lines [] evs (loaded 0 evs)) (first_state w1))\<lparr>s_count := end_count 0 evs\<rparr>,
         end_stack [] evs)"
  using run_from_open [OF first_open [OF assms(1)] assms(3), of "[]"] assms(2) by simp

lemma diag_backup_kept:
  assumes "rotateIfTooLarge fileName 2097152 w = Inr w1" and "well_nested 0 evs" and "evs \<noteq> []"
  shows "\<exists>s' stk'. run evs (initial w, []) = Inr (s', stk')
      \<and> files (fs s') ''diagnostics.log.old'' = files w1 ''diagnostics.log.old''"
proof -
  let ?t = "lines [] evs (loaded 0 evs)"
  have "files (fs (appended ?t (first_state w1))) ''diagnostics.log.old'' = files w1 ''diagnostics.log.old''"
  proof (cases "good (s_fout (first_state w1))")
    case True
    then show ?thesis
      by (simp add: appended_backup [OF first_state_target [OF True]] first_state_backup)
  next
    case False
    then show ?thesis
      by (simp add: appended_def first_state_backup)
  qed
  then show ?thesis
    by (simp add: run_from_start [OF assms])
qed

lemma Log_rotated:
  assumes "files w ''output.log'' = Some c" and "5242880 < length c"
    and "can_stat w ''output.log''" and "can_size w ''output.log''" and "can_stat w ''output.log.old''"
    and "can_unlink w ''output.log''"
    and "files w ''output.log.old'' = None \<or> can_unlink w ''output.log.old''"
  shows "\<exists>l1. Log_ensureFileOpen (Log_initial w) = Inr l1
      \<and> files (Log_fs l1) ''output.log.old'' = Some c
      \<and> files (Log_fs l1) ''output.log'' = (if can_append w ''output.log'' then Some [] else None)"
proof -
  have r: "Log_rotateIfTooLarge ''output.log'' 5242880 w =
      Inr (w\<lparr>files := (files w)(''output.log'' @ ''.old'' \<mapsto> c, ''output.log'' := None)\<rparr>)"
    unfolding Log_rotate_eq using assms by (intro rotate_big) simp_all
  show ?thesis
    by (simp add: Log_ensureFileOpen_def Log_initial_def r ofstream_open_def closed_stream_def
        contents_def)
qed

lemma Log_not_rotated:
  assumes "can_stat w ''output.log''"
    and "files w ''output.log'' = None
         \<or> (can_size w ''output.log'' \<and> length (contents w ''output.log'') \<le> 5242880)"
  shows "\<exists>l1. Log_ensureFileOpen (Log_initial w) = Inr l1
      \<and> files (Log_fs l1) ''output.log.old'' = files w ''output.log.old''
      \<and> contents (Log_fs l1) ''output.log'' = contents w ''output.log''"
proof -
  have r: "Log_rotateIfTooLarge ''output.log'' 5242880 w = Inr w"
    unfolding Log_rotate_eq by (rule rotate_small [OF assms])
  show ?thesis
    by (simp add: Log_ensureFileOpen_def Log_initial_def r ofstream_open_def closed_stream_def
        contents_def)
qed

lemma Log_opened:
  assumes "Log_initialized ls"
  shows "\<exists>l1. Log_ensureFileOpen ls = Inr l1 \<and> Log_initialized l1
      \<and> files (Log_fs l1) ''output.log.old'' = files (Log_fs ls) ''output.log.old''
      \<and> contents (Log_fs l1) ''output.log'' = contents (Log_fs ls) ''output.log''"
  using assms
  by (simp add: Log_ensureFileOpen_def ofstream_open_def contents_def)

section \<open>Rotation (C6)\<close>

text \<open>
  C6, as amended. At the first open of a process, a diagnostics file of more than
  2 MiB (for the general logger: an output.log of more than 5 MiB) is renamed to the
  name with \<open>.old\<close> appended, provided the operating system lets the status of the
  file and of the backup and the size of the file be read, the old backup be removed
  and the file be renamed; the backup then holds exactly the content of the renamed
  file, whatever the old backup held, and the file itself starts empty. A file whose
  status and size can be read and that has at most the threshold, or no file, is not
  renamed: the backup is untouched and the file keeps its content (followed by the
  crash marker when the crash check says so). Once the initialization flag is set, the
  ensure-open operation renames nothing, whatever the size of the file, and through a
  whole program the backup stays what the rotation step of the first open left.
\<close>

theorem rotation_when_permitted:
  "(files w fileName = Some c \<and> 2097152 < length c
      \<and> can_stat w fileName \<and> can_size w fileName \<and> can_stat w ''diagnostics.log.old''
      \<and> can_unlink w fileName
      \<and> (files w ''diagnostics.log.old'' = None \<or> can_unlink w ''diagnostics.log.old'')
    \<longrightarrow> (\<exists>s1. ensureFileOpen (initial w) = Inr s1
          \<and> files (fs s1) ''diagnostics.log.old'' = Some c
          \<and> files (fs s1) fileName = (if can_append w fileName then Some [] else None)))
   \<and> (can_stat w fileName
      \<and> (files w fileName = None
          \<or> (can_size w fileName \<and> length (contents w fileName) \<le> 2097152))
    \<longrightarrow> (\<exists>s1. ensureFileOpen (initial w) = Inr s1
          \<and> files (fs s1) ''diagnostics.log.old'' = files w ''diagnostics.log.old''
          \<and> contents (fs s1) fileName =
              contents w fileName
              @ (if can_append w fileName \<and> crash_verdict (lastLine fileName w)
                 then crash_marker else [])))
   \<and> (s_initialized s
    \<longrightarrow> (\<exists>s1. ensureFileOpen s = Inr s1 \<and> s_initialized s1
          \<and> files (fs s1) ''diagnostics.log.old'' = files (fs s) ''diagnostics.log.old''
          \<and> contents (fs s1) fileName = contents (fs s) fileName))
   \<and> (rotateIfTooLarge fileName 2097152 w = Inr w1 \<and> well_nested 0 evs \<and> evs \<noteq> []
    \<longrightarrow> (\<exists>s' stk'. run evs (initial w, []) = Inr (s', stk')
          \<and> files (fs s') ''diagnostics.log.old'' = files w1 ''diagnostics.log.old''))
   \<and> (files w ''output.log'' = Some c' \<and> 5242880 < length c'
      \<and> can_stat w ''output.log'' \<and> can_size w ''output.log'' \<and> can_stat w ''output.log.old''
      \<and> can_unlink w ''output.log''
      \<and> (files w ''output.log.old'' = None \<or> can_unlink w ''output.log.old'')
    \<longrightarrow> (\<exists>l1. Log_ensureFileOpen (Log_initial w) = Inr l1
          \<and> files (Log_fs l1) ''output.log.old'' = Some c'
          \<and> files (Log_fs l1) ''output.log'' = (if can_append w ''output.log'' then Some [] else None)))
   \<and> (can_stat w ''output.log''
      \<and> (files w ''output.log'' = None
          \<or> (can_size w ''output.log'' \<and> length (contents w ''output.log'') \<le> 5242880))
    \<longrightarrow> (\<exists>l1. Log_ensureFileOpen (Log_initial w) = Inr l1
          \<and> files (Log_fs l1) ''output.log.old'' = files w ''output.log.old''
          \<and> contents (Log_fs l1) ''output.log'' = contents w ''output.log''))
   \<and> (Log_initialized ls
    \<longrightarrow> (\<exists>l1. Log_ensureFileOpen ls = Inr l1 \<and> Log_initialized l1
          \<and> files (Log_fs l1) ''output.log.old'' = files (Log_fs ls) ''output.log.old''
          \<and> contents (Log_fs l1) ''output.log'' = contents (Log_fs ls) ''output.log''))"
proof (intro conjI impI)
  assume "files w fileName = Some c \<and> 2097152 < length c
      \<and> can_stat w fileName \<and> can_size w fileName \<and> can_stat w ''diagnostics.log.old''
      \<and> can_unlink w fileName
      \<and> (files w ''diagnostics.log.old'' = None \<or> can_unlink w ''diagnostics.log.old'')"
  then show "\<exists>s1. ensureFileOpen (initial w) = Inr s1
          \<and> files (fs s1) ''diagnostics.log.old'' = Some c
          \<and> files (fs s1) fileName = (if can_append w fileName then Some [] else None)"
    by (intro diag_rotated) simp_all
next
  assume "can_stat w fileName
      \<and> (files w fileName = None
          \<or> (can_size w fileName \<and> length (contents w fileName) \<le> 2097152))"
  then show "\<exists>s1. ensureFileOpen (initial w) = Inr s1
          \<and> files (fs s1) ''diagnostics.log.old'' = files w ''diagnostics.log.old''
          \<and> contents (fs s1) fileName =
              contents w fileName
              @ (if can_append w fileName \<and> crash_verdict (lastLine fileName w)
                 then crash_marker else [])"
    by (intro diag_not_rotated) simp_all
next
  assume "s_initialized s"
  then show "\<exists>s1. ensureFileOpen s = Inr s1 \<and> s_initialized s1
          \<and> files (fs s1) ''diagnostics.log.old'' = files (fs s) ''diagnostics.log.old''
          \<and> contents (fs s1) fileName = contents (fs s) fileName"
    by (rule diag_initialized)
next
  assume "rotateIfTooLarge fileName 2097152 w = Inr w1 \<and> well_nested 0 evs \<and> evs \<noteq> []"
  then show "\<exists>s' stk'. run evs (initial w, []) = Inr (s', stk')
          \<and> files (fs s') ''diagnostics.log.old'' = files w1 ''diagnostics.log.old''"
    by (intro diag_backup_kept) simp_all
next
  assume "files w ''output.log'' = Some c' \<and> 5242880 < length c'
      \<and> can_stat w ''output.log'' \<and> can_size w ''output.log'' \<and> can_stat w ''output.log.old''
      \<and> can_unlink w ''output.log''
      \<and> (files w ''output.log.old'' = None \<or> can_unlink w ''output.log.old'')"
  then show "\<exists>l1. Log_ensureFileOpen (Log_initial w) = Inr l1
          \<and> files (Log_fs l1) ''output.log.old'' = Some c'
          \<and> files (Log_fs l1) ''output.log'' = (if can_append w ''output.log'' then Some [] else None)"
    by (intro Log_rotated) simp_all
next
  assume "can_stat w ''output.log''
      \<and> (files w ''output.log'' = None
          \<or> (can_size w ''output.log'' \<and> length (contents w ''output.log'') \<le> 5242880))"
  then show "\<exists>l1. Log_ensureFileOpen (Log_initial w) = Inr l1
          \<and> files (Log_fs l1) ''output.log.old'' = files w ''output.log.old''
          \<and> contents (Log_fs l1) ''output.log'' = contents w ''output.log''"
    by (intro Log_not_rotated) simp_all
next
  assume "Log_initialized ls"
  then show "\<exists>l1. Log_ensureFileOpen ls = Inr l1 \<and> Log_initialized l1
          \<and> files (Log_fs l1) ''output.log.old'' = files (Log_fs ls) ''output.log.old''
          \<and> contents (Log_fs l1) ''output.log'' = contents (Log_fs ls) ''output.log''"
    by (rule Log_opened)
qed

lemma lastLine_crashed_fs:
  "lastLine fileName crashed_fs = ''[2025-01-01 09:00:01] main:working main.cpp |1''"
  by (simp add: lastLine_def crashed_fs_def permissive_def contents_def lastLine_previous_log)

lemma crashed_fs_small:
  "can_stat crashed_fs fileName
   \<and> (files crashed_fs fileName = None
       \<or> (can_size crashed_fs fileName \<and> length (contents crashed_fs fileName) \<le> 2097152))"
  by (simp add: contents_def crashed_fs_def permissive_def previous_log_def)

lemma crashed_fs_no_output:
  "can_stat crashed_fs ''output.log''
   \<and> (files crashed_fs ''output.log'' = None
       \<or> (can_size crashed_fs ''output.log''
           \<and> length (contents crashed_fs ''output.log'') \<le> 5242880))"
  by (simp add: crashed_fs_def permissive_def fileName_def)

lemma both_big_diag:
  "files both_big_fs fileName = Some big_log \<and> 2097152 < length big_log
   \<and> can_stat both_big_fs fileName \<and> can_size both_big_fs fileName
   \<and> can_stat both_big_fs ''diagnostics.log.old''
   \<and> can_unlink both_big_fs fileName
   \<and> (files both_big_fs ''diagnostics.log.old'' = None \<or> can_unlink both_big_fs ''diagnostics.log.old'')"
  by (simp add: both_big_fs_def permissive_def fileName_def length_big_log)

lemma both_big_out:
  "files both_big_fs ''output.log'' = Some (replicate 5242881 (CHR ''y''))
   \<and> 5242880 < length (replicate 5242881 (CHR ''y''))
   \<and> can_stat both_big_fs ''output.log'' \<and> can_size both_big_fs ''output.log''
   \<and> can_stat both_big_fs ''output.log.old''
   \<and> can_unlink both_big_fs ''output.log''
   \<and> (files both_big_fs ''output.log.old'' = None \<or> can_unlink both_big_fs ''output.log.old'')"
  by (simp add: both_big_fs_def permissive_def fileName_def)

lemma both_big_rotate:
  "rotateIfTooLarge fileName 2097152 both_big_fs =
     Inr (both_big_fs\<lparr>files := (files both_big_fs)(fileName @ ''.old'' \<mapsto> big_log, fileName := None)\<rparr>)"
  using both_big_diag by (intro rotate_big) (simp_all add: fileName_old)

lemma scenario_foo_nested: "well_nested 0 scenario_foo \<and> scenario_foo \<noteq> []"
  by (simp add: scenario_foo_def)

theorem rotation_when_permitted_witness:
  "(\<exists>s1. ensureFileOpen (initial both_big_fs) = Inr s1
        \<and> files (fs s1) ''diagnostics.log.old'' = Some big_log
        \<and> files (fs s1) fileName = Some [])
   \<and> (\<exists>s1. ensureFileOpen (initial crashed_fs) = Inr s1
        \<and> files (fs s1) ''diagnostics.log.old'' = None
        \<and> contents (fs s1) fileName = previous_log @ crash_marker)
   \<and> (\<exists>s1. ensureFileOpen fresh_open = Inr s1 \<and> s_initialized s1
        \<and> files (fs s1) ''diagnostics.log.old'' = None
        \<and> contents (fs s1) fileName = [])
   \<and> (\<exists>s' stk'. run scenario_foo (initial both_big_fs, []) = Inr (s', stk')
        \<and> files (fs s') ''diagnostics.log.old'' = Some big_log)
   \<and> (\<exists>l1. Log_ensureFileOpen (Log_initial both_big_fs) = Inr l1
        \<and> files (Log_fs l1) ''output.log.old'' = Some (replicate 5242881 (CHR ''y''))
        \<and> files (Log_fs l1) ''output.log'' = Some [])
   \<and> (\<exists>l1. Log_ensureFileOpen (Log_initial crashed_fs) = Inr l1
        \<and> files (Log_fs l1) ''output.log.old'' = None
        \<and> contents (Log_fs l1) ''output.log'' = [])
   \<and> (\<exists>l1. Log_ensureFileOpen \<lparr>Log_fout = closed_stream, Log_initialized = True, Log_fs = crashed_fs\<rparr> = Inr l1
        \<and> Log_initialized l1
        \<and> files (Log_fs l1) ''output.log.old'' = None
        \<and> contents (Log_fs l1) ''output.log'' = [])"
proof -
  note big = rotation_when_permitted [of both_big_fs big_log fresh_open _ scenario_foo
      "replicate 5242881 (CHR ''y'')"
      "\<lparr>Log_fout = closed_stream, Log_initialized = True, Log_fs = crashed_fs\<rparr>"]
  note small = rotation_when_permitted [of crashed_fs]
  have a: "can_append both_big_fs fileName" "can_append both_big_fs ''output.log''"
    "can_append crashed_fs fileName"
    by (simp_all add: both_big_fs_def crashed_fs_def permissive_def)
  have i: "s_initialized fresh_open" "files (fs fresh_open) ''diagnostics.log.old'' = None"
    "contents (fs fresh_open) fileName = []"
    by (simp_all add: fresh_open_def permissive_def contents_def fileName_def)
  have n: "files crashed_fs ''diagnostics.log.old'' = None" "contents crashed_fs fileName = previous_log"
    "files crashed_fs ''output.log.old'' = None" "contents crashed_fs ''output.log'' = []"
    by (simp_all add: crashed_fs_def permissive_def contents_def fileName_def)
  have b: "files (both_big_fs\<lparr>files := (files both_big_fs)(fileName @ ''.old'' \<mapsto> big_log, fileName := None)\<rparr>)
      ''diagnostics.log.old'' = Some big_log"
    by (simp add: fileName_def)
  have c1: "\<exists>s1. ensureFileOpen (initial both_big_fs) = Inr s1
        \<and> files (fs s1) ''diagnostics.log.old'' = Some big_log
        \<and> files (fs s1) fileName = Some []"
    using big [THEN conjunct1, THEN mp, OF both_big_diag] by (simp add: a)
  have c2: "\<exists>s1. ensureFileOpen (initial crashed_fs) = Inr s1
        \<and> files (fs s1) ''diagnostics.log.old'' = None
        \<and> contents (fs s1) fileName = previous_log @ crash_marker"
    using small [THEN conjunct2, THEN conjunct1, THEN mp, OF crashed_fs_small]
    by (simp add: a n lastLine_crashed_fs verdict_working)
  have c3: "\<exists>s1. ensureFileOpen fresh_open = Inr s1 \<and> s_initialized s1
        \<and> files (fs s1) ''diagnostics.log.old'' = None
        \<and> contents (fs s1) fileName = []"
    using big [THEN conjunct2, THEN conjunct2, THEN conjunct1, THEN mp, OF i(1)]
    by (simp add: i)
  have c4: "\<exists>s' stk'. run scenario_foo (initial both_big_fs, []) = Inr (s', stk')
        \<and> files (fs s') ''diagnostics.log.old'' = Some big_log"
    using big [THEN conjunct2, THEN conjunct2, THEN conjunct2, THEN conjunct1, THEN mp,
        OF conjI [OF both_big_rotate scenario_foo_nested]]
    by (simp only: b)
  have c5: "\<exists>l1. Log_ensureFileOpen (Log_initial both_big_fs) = Inr l1
        \<and> files (Log_fs l1) ''output.log.old'' = Some (replicate 5242881 (CHR ''y''))
        \<and> files (Log_fs l1) ''output.log'' = Some []"
    using big [THEN conjunct2, THEN conjunct2, THEN conjunct2, THEN conjunct2, THEN conjunct1,
        THEN mp, OF both_big_out]
    by (simp add: a)
  have c6: "\<exists>l1. Log_ensureFileOpen (Log_initial crashed_fs) = Inr l1
        \<and> files (Log_fs l1) ''output.log.old'' = None
        \<and> contents (Log_fs l1) ''output.log'' = []"
    using small [THEN conjunct2, THEN conjunct2, THEN conjunct2, THEN conjunct2, THEN conjunct2,
        THEN conjunct1, THEN mp, OF crashed_fs_no_output]
    by (simp add: n)
  have c7: "\<exists>l1. Log_ensureFileOpen \<lparr>Log_fout = closed_stream, Log_initialized = True, Log_fs = crashed_fs\<rparr> = Inr l1
        \<and> Log_initialized l1
        \<and> files (Log_fs l1) ''output.log.old'' = None
        \<and> contents (Log_fs l1) ''output.log'' = []"
    using big [THEN conjunct2, THEN conjunct2, THEN conjunct2, THEN conjunct2, THEN conjunct2,
        THEN conjunct2]
    by (simp add: n)
  from c1 c2 c3 c4 c5 c6 c7 show ?thesis
    by (intro conjI)
qed

lemma locked_fs_rotate: "rotateIfTooLarge fileName 2097152 locked_fs = Inl filesystem_error"
  by (rule rotate_throw [where c = big_log])
    (simp_all add: locked_fs_def big_fs_def permissive_def length_big_log fileName_def)

lemma ensureFileOpen_throw:
  "\<not> s_initialized s \<Longrightarrow> rotateIfTooLarge fileName 2097152 (fs s) = Inl e \<Longrightarrow>
   ensureFileOpen s = Inl e"
  by (simp add: ensureFileOpen_first)

text \<open>
  C6 as stated fails. The diagnostics file has more than 2 MiB, its status and size
  can be read, and the operating system refuses to remove the old backup and to rename
  the file: \<open>fs::remove\<close> and \<open>fs::rename\<close> throw, the first open raises, and the
  file is not renamed.
\<close>

theorem rotation_refused_counterexample:
  "files locked_fs fileName = Some big_log \<and> 2097152 < length big_log
   \<and> fs_exists fileName locked_fs = Inr True
   \<and> fs_file_size fileName locked_fs = Inr (length big_log)
   \<and> fs_remove ''diagnostics.log.old'' locked_fs = Inl filesystem_error
   \<and> fs_rename fileName ''diagnostics.log.old'' locked_fs = Inl filesystem_error
   \<and> rotateIfTooLarge fileName 2097152 locked_fs = Inl filesystem_error
   \<and> ensureFileOpen (initial locked_fs) = Inl filesystem_error"
proof -
  have "ensureFileOpen (initial locked_fs) = Inl filesystem_error"
    by (rule ensureFileOpen_throw) (simp_all add: initial_def locked_fs_rotate)
  then show ?thesis
    by (simp add: locked_fs_rotate length_big_log)
      (simp add: locked_fs_def big_fs_def permissive_def fileName_def fs_exists_def
        fs_file_size_def fs_remove_def fs_rename_def contents_def)
qed

lemma lastLine_big_fs:
  "lastLine fileName big_fs = ''[2025-01-01 09:00:01] main:working main.cpp |1''"
  by (simp add: lastLine_def big_fs_def permissive_def contents_def lastLine_big_log fileName_def)

lemma big_fs_rotate:
  "rotateIfTooLarge fileName 2097152 big_fs =
     Inr (big_fs\<lparr>files := (files big_fs)(fileName @ ''.old'' \<mapsto> big_log, fileName := None)\<rparr>)"
  by (intro rotate_big) (simp_all add: big_fs_def permissive_def fileName_def length_big_log)

lemma first_state_rotated:
  "first_state (big_fs\<lparr>files := (files big_fs)(fileName @ ''.old'' \<mapsto> big_log, fileName := None)\<rparr>) =
     rotated_state"
proof -
  let ?w1 = "big_fs\<lparr>files := (files big_fs)(fileName @ ''.old'' \<mapsto> big_log, fileName := None)\<rparr>"
  have l: "lastLine fileName ?w1 = []"
    by (simp add: lastLine_missing)
  have a: "can_append ?w1 fileName"
    by (simp add: big_fs_def permissive_def)
  have f: "(files ?w1)(fileName \<mapsto> []) = [''diagnostics.log.old'' \<mapsto> big_log, fileName \<mapsto> []]"
    by (rule ext) (simp add: big_fs_def permissive_def fileName_def)
  have "?w1\<lparr>files := (files ?w1)(fileName \<mapsto> [])\<rparr> =
      permissive [''diagnostics.log.old'' \<mapsto> big_log, fileName \<mapsto> []]"
    unfolding f by (simp add: big_fs_def permissive_def)
  then show ?thesis
    using a by (simp add: first_state_def l crash_verdict_Nil contents_def rotated_state_def)
qed

lemma lastLine_blank_end: "lastLine fileName blank_end_fs = []"
  by (simp add: lastLine_def blank_end_fs_def permissive_def contents_def lastLine_loop.simps nl_def)

lemma blank_end_small:
  "can_stat blank_end_fs fileName
   \<and> (files blank_end_fs fileName = None
       \<or> (can_size blank_end_fs fileName \<and> length (contents blank_end_fs fileName) \<le> 2097152))"
  by (simp add: contents_def blank_end_fs_def permissive_def)

lemma rotate_small_conj:
  "can_stat w fname
     \<and> (files w fname = None \<or> (can_size w fname \<and> length (contents w fname) \<le> m)) \<Longrightarrow>
   rotateIfTooLarge fname m w = Inr w"
  by (rule rotate_small) simp_all

section \<open>Which file the crash check reads (C3)\<close>

text \<open>
  C3 as stated fails. Earlier runs closed 25000 scopes and the previous run stopped
  inside a scope: the diagnostics file has more than 2 MiB and its last line has
  count 1. The first open of the next
  process renames that file to the backup, creates a new empty file and runs the crash
  check on the new file: the line examined is empty, not the last line the previous
  run wrote, and no crash is reported. The backup is not read. Likewise, for a small
  file that ends in a blank line the line examined is that empty line, not the last
  non-empty one.
\<close>

theorem crash_check_after_rotation_counterexample:
  "lastLine fileName big_fs = ''[2025-01-01 09:00:01] main:working main.cpp |1''
   \<and> crash_verdict (lastLine fileName big_fs)
   \<and> ensureFileOpen (initial big_fs) = Inr rotated_state
   \<and> files (fs rotated_state) ''diagnostics.log.old'' = Some big_log
   \<and> lastLine fileName (fs rotated_state) = []
   \<and> \<not> s_crashedLastTime rotated_state
   \<and> ensureFileOpen (initial blank_end_fs) = Inr (first_state blank_end_fs)
   \<and> lastLine fileName blank_end_fs = []
   \<and> \<not> s_crashedLastTime (first_state blank_end_fs)"
proof -
  have "ensureFileOpen (initial big_fs) = Inr rotated_state"
    using first_open [OF big_fs_rotate] by (simp only: first_state_rotated)
  moreover have "ensureFileOpen (initial blank_end_fs) = Inr (first_state blank_end_fs)"
    by (rule first_open [OF rotate_small_conj [OF blank_end_small]])
  moreover have "lastLine fileName (fs rotated_state) = []"
    by (simp add: rotated_state_def lastLine_def permissive_def contents_def lastLine_loop_Nil)
  moreover have "files (fs rotated_state) ''diagnostics.log.old'' = Some big_log"
    by (simp add: rotated_state_def permissive_def fileName_def)
  ultimately show ?thesis
    by (simp add: lastLine_big_fs verdict_working lastLine_blank_end crash_verdict_Nil)
      (simp add: rotated_state_def)
qed

text \<open>
  C3, as amended. When the first open does not rotate (the status of the diagnostics
  path can be read and there is no file, or the size of the file can be read and is at
  most 2 MiB), the crash check examines the last line of the file as it was before
  the process started: opening the file for appending leaves its lines as they were,
  the check returns the verdict on that last line, and that verdict is what the
  process remembers. The last line is the last one \<open>getline\<close> delivers, which is empty
  when the file ends in a blank line. The backup is never read.
\<close>

theorem crash_check_reads_existing_file:
  assumes "can_stat w fileName"
    and "files w fileName = None
         \<or> (can_size w fileName \<and> length (contents w fileName) \<le> 2097152)"
  shows "lastLine fileName (fs (fout_open fileName (initial w))) = lastLine fileName w
     \<and> (\<exists>s'. detectPreviousCrash ((fout_open fileName (initial w))\<lparr>s_initialized := True\<rparr>) =
               Inr (crash_verdict (lastLine fileName w), s'))
     \<and> (\<exists>s1. ensureFileOpen (initial w) = Inr s1
           \<and> s_crashedLastTime s1 = crash_verdict (lastLine fileName w))"
proof -
  have l: "lastLine fileName (fs (fout_open fileName (initial w))) = lastLine fileName w"
    by (simp add: fout_open_def ofstream_open_def initial_def closed_stream_def lastLine_created)
  have "\<not> s_crashChecked ((fout_open fileName (initial w))\<lparr>s_initialized := True\<rparr>)"
    "\<not> s_crashedLastTime ((fout_open fileName (initial w))\<lparr>s_initialized := True\<rparr>)"
    "can_stat (fs ((fout_open fileName (initial w))\<lparr>s_initialized := True\<rparr>)) fileName"
    using assms(1) by (simp_all add: initial_def)
  from detectPreviousCrash_first [OF this]
  have d: "\<exists>s'. detectPreviousCrash ((fout_open fileName (initial w))\<lparr>s_initialized := True\<rparr>) =
      Inr (crash_verdict (lastLine fileName w), s')"
    by (simp add: l)
  show ?thesis
    using l d first_open [OF rotate_small [OF assms]] by simp
qed

theorem crash_check_reads_existing_file_witness:
  "can_stat crashed_fs fileName
   \<and> (files crashed_fs fileName = None
       \<or> (can_size crashed_fs fileName \<and> length (contents crashed_fs fileName) \<le> 2097152))
   \<and> lastLine fileName (fs (fout_open fileName (initial crashed_fs))) =
       ''[2025-01-01 09:00:01] main:working main.cpp |1''
   \<and> (\<exists>s'. detectPreviousCrash ((fout_open fileName (initial crashed_fs))\<lparr>s_initialized := True\<rparr>) =
             Inr (True, s'))
   \<and> (\<exists>s1. ensureFileOpen (initial crashed_fs) = Inr s1 \<and> s_crashedLastTime s1)"
  using crashed_fs_small
    crash_check_reads_existing_file [OF crashed_fs_small [THEN conjunct1]
      crashed_fs_small [THEN conjunct2]]
  by (simp add: lastLine_crashed_fs verdict_working)

lemma appended_contents:
  "good (s_fout s) \<Longrightarrow>
   contents (fs (appended txt s)) (target (s_fout s)) = contents (fs s) (target (s_fout s)) @ txt"
  by (simp add: appended_def append_file_def contents_def)

lemma rotate_cases:
  assumes "rotateIfTooLarge fname m w = Inr w1"
  shows "w1 = w \<or> files w1 fname = None"
  using assms
  by (auto simp: rotateIfTooLarge_def fs_remove_def fs_rename_def Let_def
      split: if_splits sum.splits)

lemma run_from_start_contents:
  assumes "rotateIfTooLarge fileName 2097152 w = Inr w1" and "well_nested 0 evs" and "evs \<noteq> []"
  shows "\<exists>s' stk'. run evs (initial w, []) = Inr (s', stk')
      \<and> s_crashedLastTime s' = crash_verdict (lastLine fileName w1)
      \<and> contents (fs s') fileName =
          contents w1 fileName
          @ (if can_append w fileName
             then (if crash_verdict (lastLine fileName w1) then crash_marker else [])
                  @ lines [] evs (loaded 0 evs)
             else [])"
proof -
  let ?t = "lines [] evs (loaded 0 evs)"
  have a: "can_append w1 fileName = can_append w fileName"
    by (simp add: rotateIfTooLarge_perms(1) [OF assms(1)])
  have "contents (fs (appended ?t (first_state w1))) fileName =
      contents w1 fileName
      @ (if can_append w fileName
         then (if crash_verdict (lastLine fileName w1) then crash_marker else []) @ ?t
         else [])"
  proof (cases "can_append w fileName")
    case True
    then have g: "good (s_fout (first_state w1))"
      by (simp add: a)
    show ?thesis
      using appended_contents [OF g, of ?t] True
      by (simp add: first_state_target [OF g] first_state_contents a)
  next
    case False
    then show ?thesis
      by (simp add: appended_def a first_state_contents)
  qed
  then show ?thesis
    by (simp add: run_from_start [OF assms])
qed

lemma verdict_no_bar: "CHR ''|'' \<notin> set line \<Longrightarrow> \<not> crash_verdict line"
  by (simp add: crash_verdict_def count_field_none)

lemma verdict_last_bar:
  "CHR ''|'' \<notin> set suf \<Longrightarrow>
   crash_verdict (pre @ CHR ''|'' # suf) = (case stoi suf of Inl e \<Rightarrow> False | Inr n \<Rightarrow> 0 < n)"
  by (simp add: crash_verdict_def count_field_last)

section \<open>The crash check and the crash marker (C2)\<close>




lemma crashed_fs_rotate: "rotateIfTooLarge fileName 2097152 crashed_fs = Inr crashed_fs"
  by (rule rotate_small_conj [OF crashed_fs_small])






lemma detect_no_bar:
  assumes "\<not> s_crashChecked s" and "can_stat (fs s) fileName"
    and "CHR ''|'' \<notin> set (lastLine fileName (fs s))"
  shows "\<exists>s'. detectPreviousCrash s = Inr (False, s')"
  using assms by (simp add: detectPreviousCrash_def fs_exists_def Let_def rfind_none)

section \<open>A file that ends in the crash marker (C8)\<close>

text \<open>
  C8. If the last line of the diagnostics file that a process finds is exactly
  \<open>## CRASH POINT ##\<close>, the crash check returns false, the process remembers no
  crash, and a program that constructs at least one ScopeLogger appends only its scope
  records to the file (nothing at all when the file cannot be opened): no crash marker
  is written in that run.
\<close>

theorem marker_line_is_no_crash:
  assumes "rotateIfTooLarge fileName 2097152 w = Inr w1"
    and "lastLine fileName w = ''## CRASH POINT ##''"
    and "well_nested 0 evs" and "evs \<noteq> []"
  shows "(\<not> s_crashChecked s0 \<and> fs s0 = w \<longrightarrow> (\<exists>s'. detectPreviousCrash s0 = Inr (False, s')))
     \<and> (\<exists>s' stk'. run evs (initial w, []) = Inr (s', stk')
          \<and> \<not> s_crashedLastTime s'
          \<and> contents (fs s') fileName =
              contents w1 fileName
              @ (if can_append w fileName then lines [] evs (loaded 0 evs) else []))"
proof (intro conjI impI)
  assume "\<not> s_crashChecked s0 \<and> fs s0 = w"
  then show "\<exists>s'. detectPreviousCrash s0 = Inr (False, s')"
    using rotateIfTooLarge_perms(6) [OF assms(1)]
    by (intro detect_no_bar) (simp_all add: assms(2))
next
  have "\<not> crash_verdict (lastLine fileName w1)"
  proof (cases "w1 = w")
    case True
    then show ?thesis
      by (simp add: assms(2) verdict_no_bar)
  next
    case False
    then have "files w1 fileName = None"
      using rotate_cases [OF assms(1)] by simp
    then show ?thesis
      by (simp add: lastLine_missing crash_verdict_Nil)
  qed
  then have v: "crash_verdict (lastLine fileName w1) = False"
    by simp
  show "\<exists>s' stk'. run evs (initial w, []) = Inr (s', stk')
          \<and> \<not> s_crashedLastTime s'
          \<and> contents (fs s') fileName =
              contents w1 fileName
              @ (if can_append w fileName then lines [] evs (loaded 0 evs) else [])"
    using run_from_start_contents [OF assms(1,3,4)] unfolding v
    by (cases "can_append w fileName") simp_all
qed

lemma lastLine_marked_fs: "lastLine fileName marked_fs = ''## CRASH POINT ##''"
  by (simp add: lastLine_def marked_fs_def permissive_def contents_def previous_log_def
      crash_marker_def lastLine_loop.simps nl_def)

lemma marked_fs_rotate: "rotateIfTooLarge fileName 2097152 marked_fs = Inr marked_fs"
  by (rule rotate_small)
    (simp_all add: contents_def marked_fs_def permissive_def previous_log_def crash_marker_def)

theorem marker_line_is_no_crash_witness:
  "rotateIfTooLarge fileName 2097152 marked_fs = Inr marked_fs
   \<and> lastLine fileName marked_fs = ''## CRASH POINT ##''
   \<and> well_nested 0 scenario_foo \<and> scenario_foo \<noteq> []
   \<and> (\<exists>s'. detectPreviousCrash (initial marked_fs) = Inr (False, s'))
   \<and> (\<exists>s' stk'. run scenario_foo (initial marked_fs, []) = Inr (s', stk')
          \<and> \<not> s_crashedLastTime s'
          \<and> contents (fs s') fileName =
              previous_log @ crash_marker @ lines [] scenario_foo (loaded 0 scenario_foo))"
proof -
  have n: "well_nested 0 scenario_foo" "scenario_foo \<noteq> []"
    using scenario_foo_nested by simp_all
  have c: "contents marked_fs fileName = previous_log @ crash_marker"
    "can_append marked_fs fileName"
    by (simp_all add: marked_fs_def permissive_def contents_def)
  have i: "\<not> s_crashChecked (initial marked_fs) \<and> fs (initial marked_fs) = marked_fs"
    by (simp add: initial_def)
  show ?thesis
    using marked_fs_rotate lastLine_marked_fs n i
      marker_line_is_no_crash [OF marked_fs_rotate lastLine_marked_fs n, of "initial marked_fs"]
    by (simp add: c)
qed

section \<open>The counter and the nesting depth (C5)\<close>

lemma sint_of_nat_small:
  assumes "n \<le> 2147483647"
  shows "sint (of_nat n :: 32 word) = int n"
proof -
  have "signed_take_bit 31 (int n) = int n"
    using assms by (intro signed_take_bit_int_eq_self) simp_all
  then show ?thesis
    by (simp add: signed_of_nat)
qed

lemma nested_depth:
  assumes "nested B d evs" and "d \<le> B" and "length stk = d"
  shows "end_count (of_nat d) evs = of_nat (length (end_stack stk evs))
     \<and> length (end_stack stk evs) \<le> B"
  using assms
proof (induction evs arbitrary: d stk)
  case Nil
  then show ?case by simp
next
  case (Cons ev evs)
  obtain ts a where ev: "ev = (ts, a)" by (cases ev)
  have e: "(of_nat d :: 32 word) + 1 = of_nat (Suc d)"
    by simp
  show ?case
  proof (cases a)
    case (Start func srcfile ln)
    let ?stk = "\<lparr>m_func = func, m_file = srcfile, m_line = ln\<rparr> # stk"
    have "nested B (Suc d) evs" "Suc d \<le> B" "length ?stk = Suc d"
      using Cons.prems by (simp_all add: ev Start)
    from Cons.IH [OF this] show ?thesis
      by (simp add: ev Start e del: of_nat_Suc)
  next
    case (Start1 func name srcfile ln)
    let ?stk = "\<lparr>m_func = func @ '':'' @ name, m_file = srcfile, m_line = ln\<rparr> # stk"
    have "nested B (Suc d) evs" "Suc d \<le> B" "length ?stk = Suc d"
      using Cons.prems by (simp_all add: ev Start1)
    from Cons.IH [OF this] show ?thesis
      by (simp add: ev Start1 e del: of_nat_Suc)
  next
    case (Here msg)
    have "nested B d evs"
      using Cons.prems by (simp add: ev Here)
    from Cons.IH [OF this Cons.prems(2,3)] show ?thesis
      by (simp add: ev Here)
  next
    case End
    have "nested B (d - 1) evs" "d - 1 \<le> B" "length (tl stk) = d - 1" "0 < d"
      using Cons.prems by (simp_all add: ev End)
    from Cons.IH [OF this(1,2,3)] this(4) show ?thesis
      by (simp add: ev End)
  qed
qed

lemma nested_loaded:
  assumes "nested B d evs" and "d \<le> B" and "B \<le> 2147483647"
  shows "loaded (of_nat d) evs = map int (depths d evs)"
  using assms
proof (induction evs arbitrary: d)
  case Nil
  then show ?case by simp
next
  case (Cons ev evs)
  obtain ts a where ev: "ev = (ts, a)" by (cases ev)
  have s: "sint (of_nat d :: 32 word) = int d"
    using Cons.prems by (intro sint_of_nat_small) simp
  have e: "(of_nat d :: 32 word) + 1 = of_nat (Suc d)"
    by simp
  show ?case
  proof (cases a)
    case (Start func srcfile ln)
    have "nested B (Suc d) evs" "Suc d \<le> B"
      using Cons.prems by (simp_all add: ev Start)
    from Cons.IH [OF this Cons.prems(3)] show ?thesis
      by (simp add: ev Start s e del: of_nat_Suc)
  next
    case (Start1 func name srcfile ln)
    have "nested B (Suc d) evs" "Suc d \<le> B"
      using Cons.prems by (simp_all add: ev Start1)
    from Cons.IH [OF this Cons.prems(3)] show ?thesis
      by (simp add: ev Start1 s e del: of_nat_Suc)
  next
    case (Here msg)
    have "nested B d evs"
      using Cons.prems by (simp add: ev Here)
    from Cons.IH [OF this Cons.prems(2,3)] show ?thesis
      by (simp add: ev Here s)
  next
    case End
    have n: "nested B (d - 1) evs" "d - 1 \<le> B" "0 < d"
      using Cons.prems by (simp_all add: ev End)
    have "sint (of_nat (d - 1) :: 32 word) = int (d - 1)"
      using Cons.prems by (intro sint_of_nat_small) simp
    with Cons.IH [OF n(1,2) Cons.prems(3)] n(3) show ?thesis
      by (simp add: ev End)
  qed
qed

lemma nested_well_nested: "nested B d evs \<Longrightarrow> well_nested d evs"
proof (induction evs arbitrary: d)
  case Nil
  then show ?case by simp
next
  case (Cons ev evs)
  obtain ts a where ev: "ev = (ts, a)" by (cases ev)
  with Cons show ?case by (cases a) simp_all
qed

lemma nested_prefix: "nested B d (evs @ rest) \<Longrightarrow> nested B d evs"
proof (induction evs arbitrary: d)
  case Nil
  then show ?case by simp
next
  case (Cons ev evs)
  obtain ts a where ev: "ev = (ts, a)" by (cases ev)
  with Cons show ?case by (cases a) simp_all
qed

text \<open>
  C5, as amended. Take a properly nested sequence of constructions, annotations and
  destructions on one thread in which never more than 2147483647 scopes are live, and
  run any prefix of it in a process whose counter is 0 and whose first open returns.
  The prefix runs without raising; afterwards the counter equals the number of live
  scopes, so it went up by exactly 1 with each construction and down by exactly 1 with
  each destruction; and the count fields of the records are the nesting depths
  \<open>depths\<close>, which are natural numbers and so never negative.
\<close>

theorem counts_follow_depth:
  assumes "ensureFileOpen s = Inr s1" and "s_count s = 0"
    and "nested 2147483647 0 (evs @ rest)"
  shows "\<exists>s' stk'. run evs (s, []) = Inr (s', stk')
       \<and> stk' = end_stack [] evs
       \<and> sint (s_count s') = int (length stk')
       \<and> loaded 0 evs = map int (depths 0 evs)
       \<and> (evs \<noteq> [] \<longrightarrow> fs s' = fs (appended (lines [] evs (map int (depths 0 evs))) s1))"
proof -
  have n: "nested 2147483647 0 evs"
    by (rule nested_prefix [OF assms(3)])
  have wn: "well_nested (length ([] :: scope_logger list)) evs"
    using nested_well_nested [OF n] by simp
  have l: "loaded 0 evs = map int (depths 0 evs)"
    using nested_loaded [OF n] by simp
  have d: "end_count 0 evs = of_nat (length (end_stack [] evs))"
    "length (end_stack [] evs) \<le> 2147483647"
    using nested_depth [OF n, of "[]"] by simp_all
  have c: "sint (end_count 0 evs) = int (length (end_stack [] evs))"
    unfolding d(1) by (rule sint_of_nat_small [OF d(2)])
  show ?thesis
  proof (cases "evs = []")
    case True
    then show ?thesis
      using assms(2) by simp
  next
    case False
    have "run evs (s, []) =
      Inr ((appended (lines [] evs (loaded (s_count s) evs)) s1)\<lparr>s_count := end_count (s_count s) evs\<rparr>,
           end_stack [] evs)"
      by (rule run_from_open [OF assms(1) False wn])
    then show ?thesis
      using c l by (simp add: assms(2))
  qed
qed

theorem counts_follow_depth_witness:
  "ensureFileOpen (initial (permissive Map.empty)) = Inr fresh_open
   \<and> s_count (initial (permissive Map.empty)) = 0
   \<and> nested 2147483647 0 (scenario_foo @ [])
   \<and> depths 0 scenario_foo = [0, 1, 0]
   \<and> (\<exists>s' stk'. run scenario_foo (initial (permissive Map.empty), []) = Inr (s', stk')
         \<and> stk' = []
         \<and> sint (s_count s') = 0
         \<and> loaded 0 scenario_foo = [0, 1, 0]
         \<and> fs s' = fs (appended (lines [] scenario_foo [0, 1, 0]) fresh_open))"
proof -
  have n: "nested 2147483647 0 (scenario_foo @ [])"
    by (simp add: scenario_foo_def)
  have d: "depths 0 scenario_foo = [0, 1, 0]" "end_stack [] scenario_foo = []" "scenario_foo \<noteq> []"
    by (simp_all add: scenario_foo_def)
  show ?thesis
    using first_open_empty initial_count [of "permissive Map.empty"] n d(1)
      counts_follow_depth [OF first_open_empty initial_count n]
    by (simp add: d)
qed

lemma starts_Suc: "starts (Suc n) = (''2025-01-01 10:00:00'', Start ''f'' ''a.cpp'' 1) # starts n"
  by (simp add: starts_def)

lemma starts_0: "starts 0 = []"
  by (simp add: starts_def)

lemma well_nested_starts: "well_nested d (starts n @ evs) = well_nested (d + n) evs"
  by (induction n arbitrary: d) (simp_all add: starts_Suc starts_0)

lemma end_count_starts: "end_count c (starts n @ evs) = end_count (c + of_nat n) evs"
  by (induction n arbitrary: c) (simp_all add: starts_Suc starts_0 add.assoc)

lemma lines_starts:
  "lines stk (starts n @ evs) (loaded c (starts n @ evs)) =
   lines stk (starts n) (loaded c (starts n))
   @ lines (replicate n \<lparr>m_func = ''f'', m_file = ''a.cpp'', m_line = 1\<rparr> @ stk) evs
       (loaded (c + of_nat n) evs)"
proof (induction n arbitrary: c stk)
  case 0
  then show ?case by (simp add: starts_0)
next
  case (Suc n)
  show ?case
    using Suc [of "\<lparr>m_func = ''f'', m_file = ''a.cpp'', m_line = 1\<rparr> # stk" "c + 1"]
    by (simp add: starts_Suc replicate_app_Cons_same add.assoc)
qed

lemma lines_here_replicate:
  assumes "0 < n"
  shows "lines (replicate n obj @ stk) [(ts, Here msg)] (loaded c [(ts, Here msg)]) =
    record_line ts (m_func obj) msg (m_file obj) (sint c)"
  using assms by (cases n) simp_all

lemma empty_fs_rotate:
  "rotateIfTooLarge fileName 2097152 (permissive Map.empty) = Inr (permissive Map.empty)"
  by (rule rotate_small) (simp_all add: permissive_def)

lemma final_contents_empty_fs:
  assumes "well_nested 0 evs" and "evs \<noteq> []"
  shows "final_contents evs (permissive Map.empty) = Some (lines [] evs (loaded 0 evs))"
proof -
  have l: "lastLine fileName (permissive Map.empty) = []"
    by (simp add: lastLine_def permissive_def)
  have c: "contents (permissive Map.empty) fileName = []" "can_append (permissive Map.empty) fileName"
    by (simp_all add: contents_def permissive_def)
  from run_from_start_contents [OF empty_fs_rotate assms]
  show ?thesis
    by (auto simp: final_contents_def l c crash_verdict_Nil)
qed

lemma count_after_start:
  assumes "rotateIfTooLarge fileName 2097152 w = Inr w1" and "well_nested 0 evs" and "evs \<noteq> []"
  shows "count_after evs w = Some (sint (end_count 0 evs))"
  by (simp add: count_after_def run_from_start [OF assms])

lemma starts_nonempty: "0 < n \<Longrightarrow> starts n \<noteq> []"
  by (cases n) (simp_all add: starts_Suc)

lemma count_after_starts:
  assumes "0 < n"
  shows "count_after (starts n) (permissive Map.empty) = Some (sint (of_nat n :: 32 word))"
proof -
  have "well_nested 0 (starts n @ [])"
    unfolding well_nested_starts by simp
  then have w: "well_nested 0 (starts n)"
    by simp
  have "end_count 0 (starts n @ []) = of_nat n"
    unfolding end_count_starts by simp
  then show ?thesis
    by (simp add: count_after_start [OF empty_fs_rotate w starts_nonempty [OF assms]])
qed

lemma to_string_int_min: "to_string (- 2147483648) = ''-2147483648''"
  by (simp add: to_string_def show_nat.simps digit_char_def)

text \<open>
  C5 as stated fails, because the counter is a 32-bit \<open>int\<close>. After 2147483647 nested
  constructions the counter is 2147483647; the next construction takes it to
  -2147483648, not up by 1, and the annotation that follows writes a record whose
  count field is negative.
\<close>

theorem deep_nesting_counterexample:
  "well_nested 0 (starts 2147483648 @ [(''2025-01-01 10:00:01'', Here ''deep'')])
   \<and> count_after (starts 2147483647) (permissive Map.empty) = Some 2147483647
   \<and> count_after (starts 2147483648) (permissive Map.empty) = Some (- 2147483648)
   \<and> final_contents (starts 2147483648) (permissive Map.empty) \<noteq> None
   \<and> final_contents (starts 2147483648 @ [(''2025-01-01 10:00:01'', Here ''deep'')])
         (permissive Map.empty) =
       Some (the (final_contents (starts 2147483648) (permissive Map.empty))
             @ ''[2025-01-01 10:00:01] f:deep a.cpp |-2147483648\<newline>'')"
proof -
  let ?h = "(''2025-01-01 10:00:01'', Here ''deep'')"
  have w1: "well_nested 0 (starts 2147483648 @ [?h])"
    unfolding well_nested_starts by simp
  have "well_nested 0 (starts 2147483648 @ [])"
    unfolding well_nested_starts by simp
  then have w2: "well_nested 0 (starts 2147483648)"
    by simp
  have c1: "count_after (starts 2147483647) (permissive Map.empty) = Some 2147483647"
    by (simp add: count_after_starts)
  have c2: "count_after (starts 2147483648) (permissive Map.empty) = Some (- 2147483648)"
    by (simp add: count_after_starts)
  have f1: "final_contents (starts 2147483648) (permissive Map.empty) =
      Some (lines [] (starts 2147483648) (loaded 0 (starts 2147483648)))"
    by (rule final_contents_empty_fs [OF w2]) (simp add: starts_nonempty)
  have l: "lines (replicate 2147483648 \<lparr>m_func = ''f'', m_file = ''a.cpp'', m_line = 1\<rparr> @ [])
      [?h] (loaded (0 + of_nat 2147483648) [?h]) =
      ''[2025-01-01 10:00:01] f:deep a.cpp |-2147483648\<newline>''"
    by (subst lines_here_replicate) (simp_all add: record_line_def to_string_int_min nl_def)
  have f2: "final_contents (starts 2147483648 @ [?h]) (permissive Map.empty) =
      Some (lines [] (starts 2147483648) (loaded 0 (starts 2147483648))
            @ ''[2025-01-01 10:00:01] f:deep a.cpp |-2147483648\<newline>'')"
    unfolding final_contents_empty_fs [OF w1, simplified] lines_starts l ..
  show ?thesis
    using w1 c1 c2 by (simp add: f1 f2)
qed

section \<open>Raising to the caller (C9)\<close>

text \<open>
  C9 fails on the code. The diagnostics file exceeds 2 MiB and the operating system
  refuses to rename it: \<open>fs::rename\<close> throws in \<open>rotateIfTooLarge\<close>, nothing between
  there and the constructor catches, and the constructor raises to its caller.
\<close>

theorem constructor_raises_when_rotation_fails:
  "ctor ''main'' ''main.cpp'' 1 ''2025-01-01 10:00:00'' (initial locked_fs) = Inl filesystem_error
   \<and> files locked_fs fileName = Some big_log \<and> 2097152 < length big_log
   \<and> \<not> can_unlink locked_fs fileName"
proof -
  have "ensureFileOpen (initial locked_fs) = Inl filesystem_error"
    by (rule ensureFileOpen_throw) (simp_all add: initial_def locked_fs_rotate)
  then show ?thesis
    by (simp add: ctor_throw length_big_log)
      (simp add: locked_fs_def big_fs_def permissive_def fileName_def)
qed

text \<open>
  What does hold: once a first open has returned, no operation raises and the counter
  is updated whether or not the record could be written; when the file cannot be
  opened a whole program runs silently and leaves the files alone; a count field that
  does not parse is no crash.
\<close>

lemma after_first_open_nothing_raises:
  assumes "ensureFileOpen s = Inr s1"
  shows "(\<exists>obj s'. ctor func srcfile ln ts s = Inr (obj, s') \<and> s_count s' = s_count s + 1
            \<and> (\<not> good (s_fout s1) \<longrightarrow> fs s' = fs s1))
     \<and> (\<exists>obj s'. ctor1 func name srcfile ln ts s = Inr (obj, s') \<and> s_count s' = s_count s + 1
            \<and> (\<not> good (s_fout s1) \<longrightarrow> fs s' = fs s1))
     \<and> (\<exists>s'. here obj msg ts s = Inr s' \<and> s_count s' = s_count s
            \<and> (\<not> good (s_fout s1) \<longrightarrow> fs s' = fs s1))
     \<and> (\<exists>s'. dtor obj ts s = Inr s' \<and> s_count s' = s_count s - 1
            \<and> (\<not> good (s_fout s1) \<longrightarrow> fs s' = fs s1))"
  by (simp add: ctor_after_open [OF assms] ctor1_after_open [OF assms] here_after_open [OF assms]
      dtor_after_open [OF assms] ensureFileOpen_count [OF assms])

lemma open_failure_is_silent:
  assumes "rotateIfTooLarge fileName 2097152 w = Inr w1" and "\<not> can_append w fileName"
    and "well_nested 0 evs" and "evs \<noteq> []"
  shows "\<exists>s'. run evs (initial w, []) = Inr (s', end_stack [] evs)
      \<and> s_count s' = end_count 0 evs \<and> fs s' = w1"
proof -
  have "\<not> can_append w1 fileName"
    using assms(2) by (simp add: rotateIfTooLarge_perms(1) [OF assms(1)])
  then show ?thesis
    by (simp add: run_from_start [OF assms(1,3,4)] appended_def first_state_def)
qed

lemma malformed_count_is_no_crash:
  "CHR ''|'' \<notin> set txt \<Longrightarrow> stoi txt = Inl e \<Longrightarrow> \<not> crash_verdict (pre @ CHR ''|'' # txt)"
  by (simp add: verdict_last_bar)

end
